theory Spec2Isabelle
  imports Complex_Main "HOL-Library.Sublist"
begin

section \<open>Text: Python strings over the Latin-1 code points\<close>

text \<open>
  A Python \<open>str\<close> is modelled as a \<open>string\<close>, one \<open>char\<close> per code point, for the
  code points 0 to 255.  The character classes below are the ones the \<open>re\<close> module and
  the \<open>str\<close> methods use on that range: \<open>\s\<close> and \<open>str.split\<close> follow
  \<open>str.isspace\<close>, \<open>\d\<close> is the decimal digits, \<open>\w\<close> is \<open>str.isalnum\<close> plus the
  underscore, and the bracket classes \<open>[A-Z]\<close>, \<open>[a-z]\<close>, \<open>[a-d]\<close> are plain ranges.
  Text with code points above 255 is outside this model.
\<close>

definition cp :: "char \<Rightarrow> int" where
  "cp c = of_char c"

definition in_range :: "int \<Rightarrow> int \<Rightarrow> char \<Rightarrow> bool" where
  "in_range lo hi c = (lo \<le> cp c \<and> cp c \<le> hi)"

definition is_space :: "char \<Rightarrow> bool" where
  "is_space c = (in_range 9 13 c \<or> in_range 28 32 c \<or> cp c = 133 \<or> cp c = 160)"

definition is_digit :: "char \<Rightarrow> bool" where
  "is_digit c = in_range 48 57 c"

definition is_upper_az :: "char \<Rightarrow> bool" where
  "is_upper_az c = in_range 65 90 c"

definition is_lower_az :: "char \<Rightarrow> bool" where
  "is_lower_az c = in_range 97 122 c"

definition is_alnum :: "char \<Rightarrow> bool" where
  "is_alnum c = (is_digit c \<or> is_upper_az c \<or> is_lower_az c
     \<or> cp c = 170 \<or> cp c = 178 \<or> cp c = 179 \<or> cp c = 181 \<or> in_range 185 186 c
     \<or> in_range 188 190 c \<or> in_range 192 214 c \<or> in_range 216 246 c \<or> in_range 248 255 c)"

definition is_word :: "char \<Rightarrow> bool" where
  "is_word c = (is_alnum c \<or> c = CHR ''_'')"

definition lower_char :: "char \<Rightarrow> char" where
  "lower_char c = (if is_upper_az c \<or> in_range 192 214 c \<or> in_range 216 222 c
                   then char_of (cp c + 32) else c)"

definition upper_char :: "char \<Rightarrow> char" where
  \<comment> \<open>\<open>str.upper\<close> on the ASCII letters; it is applied to formula matches only, which
      consist of ASCII letters and digits\<close>
  "upper_char c = (if is_lower_az c then char_of (cp c - 32) else c)"

definition lower :: "string \<Rightarrow> string" where
  "lower s = map lower_char s"

definition upper :: "string \<Rightarrow> string" where
  "upper s = map upper_char s"

text \<open>\<open>str.split()\<close> without arguments: the maximal runs of non-whitespace.\<close>

fun split_acc :: "string \<Rightarrow> string \<Rightarrow> string list" where
  "split_acc w [] = (if w = [] then [] else [rev w])"
| "split_acc w (c # cs) =
     (if is_space c then (if w = [] then split_acc [] cs else rev w # split_acc [] cs)
      else split_acc (c # w) cs)"

definition split :: "string \<Rightarrow> string list" where
  "split s = split_acc [] s"

fun join :: "string \<Rightarrow> string list \<Rightarrow> string" where
  "join sep [] = []"
| "join sep [w] = w"
| "join sep (w # ws) = w @ sep @ join sep ws"

text \<open>\<open>str.strip()\<close>\<close>

definition strip :: "string \<Rightarrow> string" where
  "strip s = rev (dropWhile is_space (rev (dropWhile is_space s)))"

text \<open>\<open>str.replace(old, new)\<close>: the non-overlapping occurrences, from the left.\<close>

function replace :: "string \<Rightarrow> string \<Rightarrow> string \<Rightarrow> string" where
  "replace old new [] = (if old = [] then new else [])"
| "replace old new (c # cs) =
     (if old = [] then new @ c # replace old new cs
      else if prefix old (c # cs) then new @ replace old new (drop (length old) (c # cs))
      else c # replace old new cs)"
  by pat_completeness auto
termination
  by (relation "measure (\<lambda>(old, new, s). length s)") auto

text \<open>The substring test \<open>t in s\<close>.\<close>

fun contains :: "string \<Rightarrow> string \<Rightarrow> bool" where
  "contains t [] = (t = [])"
| "contains t (c # cs) = (prefix t (c # cs) \<or> contains t cs)"

section \<open>Regular expressions with the matching order of \<open>re\<close>\<close>

text \<open>
  The patterns of the source are written as terms of \<open>re\<close>.  A cursor is the character
  before the position (for \<open>\b\<close>) and the rest of the text.  \<open>ends r k\<close> lists the
  cursors at which a match of \<open>r\<close> started at \<open>k\<close> can end, in the order in which the
  backtracking matcher of \<open>re\<close> reaches them: the left alternative first, a greedy
  repetition with as many rounds as possible first, and a round of a repetition that
  consumes nothing is not taken.  The match that \<open>re\<close> reports at a position is the
  first one of the list.
\<close>

datatype re = Cls "char \<Rightarrow> bool" | Eps | Seq re re | Alt re re | Star re | Bnd

type_synonym cursor = "char option \<times> string"

definition at_boundary :: "char option \<Rightarrow> string \<Rightarrow> bool" where
  "at_boundary pc s =
     ((case pc of None \<Rightarrow> False | Some c \<Rightarrow> is_word c)
        \<noteq> (case s of [] \<Rightarrow> False | c # _ \<Rightarrow> is_word c))"

function ends :: "re \<Rightarrow> cursor \<Rightarrow> cursor list" where
  "ends (Cls P) k = (case snd k of [] \<Rightarrow> [] | c # cs \<Rightarrow> if P c then [(Some c, cs)] else [])"
| "ends Eps k = [k]"
| "ends (Seq a b) k = concat (map (ends b) (ends a k))"
| "ends (Alt a b) k = ends a k @ ends b k"
| "ends (Star a) k =
     concat (map (\<lambda>k'. if length (snd k') < length (snd k) then ends (Star a) k' else [])
                 (ends a k)) @ [k]"
| "ends Bnd k = (if at_boundary (fst k) (snd k) then [k] else [])"
  by pat_completeness auto
termination
  by (relation "inv_image (less_than <*lex*> less_than) (\<lambda>(r, k). (size r, length (snd k)))")
     auto

definition Opt :: "re \<Rightarrow> re" where
  "Opt r = Alt r Eps"

definition Plus :: "re \<Rightarrow> re" where
  "Plus r = Seq r (Star r)"

definition Chr :: "char \<Rightarrow> re" where
  "Chr x = Cls (\<lambda>c. c = x)"

definition Chr_i :: "char \<Rightarrow> re" where
  \<comment> \<open>a literal character under \<open>re.IGNORECASE\<close>\<close>
  "Chr_i x = Cls (\<lambda>c. lower_char c = lower_char x)"

fun Lit_i :: "string \<Rightarrow> re" where
  "Lit_i [] = Eps"
| "Lit_i (x # xs) = Seq (Chr_i x) (Lit_i xs)"

fun Alts :: "re list \<Rightarrow> re" where
  "Alts [] = Cls (\<lambda>c. False)"
| "Alts [r] = r"
| "Alts (r # rs) = Alt r (Alts rs)"

text \<open>
  \<open>re.sub\<close> and \<open>re.findall\<close> scan from the left: at each position the first match is
  taken and the scan goes on behind it; where nothing matches, the character is kept
  and the scan moves one position on.  No pattern of the source matches the empty
  string, and a match that consumes nothing is treated as no match.
\<close>

definition first_match :: "re \<Rightarrow> cursor \<Rightarrow> cursor option" where
  "first_match r k =
     (case ends r k of [] \<Rightarrow> None
      | k' # _ \<Rightarrow> if length (snd k') < length (snd k) then Some k' else None)"

function re_sub :: "re \<Rightarrow> (string \<Rightarrow> string) \<Rightarrow> char option \<Rightarrow> string \<Rightarrow> string" where
  "re_sub r f pc [] = []"
| "re_sub r f pc (c # cs) =
     (case first_match r (pc, c # cs) of
        Some (pc', s') \<Rightarrow> f (take (length (c # cs) - length s') (c # cs)) @ re_sub r f pc' s'
      | None \<Rightarrow> c # re_sub r f (Some c) cs)"
  by pat_completeness auto
termination
  by (relation "measure (\<lambda>(r, f, pc, s). length s)")
     (auto simp: first_match_def split: list.splits if_splits)

function re_findall :: "re \<Rightarrow> char option \<Rightarrow> string \<Rightarrow> string list" where
  "re_findall r pc [] = []"
| "re_findall r pc (c # cs) =
     (case first_match r (pc, c # cs) of
        Some (pc', s') \<Rightarrow> take (length (c # cs) - length s') (c # cs) # re_findall r pc' s'
      | None \<Rightarrow> re_findall r (Some c) cs)"
  by pat_completeness auto
termination
  by (relation "measure (\<lambda>(r, pc, s). length s)")
     (auto simp: first_match_def split: list.splits if_splits)

fun Seqs :: "re list \<Rightarrow> re" where
  "Seqs [] = Eps"
| "Seqs [r] = r"
| "Seqs (r # rs) = Seq r (Seqs rs)"

section \<open>Signature extractor\<close>

subsection \<open>\<open>_extract_chemical_formulas\<close>\<close>

definition formula_re :: re where
  \<comment> \<open>\<^verbatim>\<open>\b[A-Z][a-z]?\d*(?:[A-Z][a-z]?\d*)*\b\<close>\<close>
  "formula_re = Seqs [Bnd, Cls is_upper_az, Opt (Cls is_lower_az), Star (Cls is_digit),
     Star (Seqs [Cls is_upper_az, Opt (Cls is_lower_az), Star (Cls is_digit)]), Bnd]"

definition english_words :: "string set" where
  "english_words = {''A'', ''I'', ''In'', ''On'', ''As'', ''At'', ''An'', ''Is'', ''It'',
     ''To'', ''Be''}"

definition extract_chemical_formulas :: "string \<Rightarrow> string set" where
  "extract_chemical_formulas text =
     foldl (\<lambda>formulas m. if m \<notin> english_words \<and> length m > 1
                           then insert (upper m) formulas else formulas)
           {} (re_findall formula_re None text)"

subsection \<open>\<open>_extract_numbers_and_units\<close>\<close>

definition units :: "string list" where
  "units = [''mol'', ''g'', ''kg'', ''L'', ''mL'', ''M'', ''atm'', ''Pa'', ''K'',
     [char_of (176::int), CHR ''C''], ''J'', ''kJ'', ''eV'']"

definition number_unit_re :: re where
  \<comment> \<open>\<^verbatim>\<open>\d+\.?\d*\s*(?:mol|g|kg|L|mL|M|atm|Pa|K|\<close>degree sign\<^verbatim>\<open>C|J|kJ|eV)\<close>
      under \<open>re.IGNORECASE\<close>\<close>
  "number_unit_re = Seqs [Plus (Cls is_digit), Opt (Chr CHR ''.''), Star (Cls is_digit),
     Star (Cls is_space), Alts (map Lit_i units)]"

definition number_re :: re where
  \<comment> \<open>\<^verbatim>\<open>\b\d+\.?\d*\b\<close>\<close>
  "number_re = Seqs [Bnd, Plus (Cls is_digit), Opt (Chr CHR ''.''), Star (Cls is_digit), Bnd]"

definition extract_numbers_and_units :: "string \<Rightarrow> string set" where
  "extract_numbers_and_units text =
     foldl (\<lambda>numbers pattern. numbers \<union> set (re_findall pattern None text))
           {} [number_unit_re, number_re]"

subsection \<open>\<open>_extract_chemistry_keywords\<close>\<close>

definition chemistry_terms :: "string list" where
  "chemistry_terms =
    [''oxidation'', ''reduction'', ''electron'', ''atom'', ''molecule'', ''ion'',
     ''compound'', ''element'', ''reaction'', ''bond'', ''orbital'', ''configuration'',
     ''valence'', ''charge'', ''state'', ''number'', ''mass'', ''molar'', ''concentration'',
     ''acid'', ''base'', ''salt'', ''pH'', ''buffer'', ''equilibrium'', ''catalyst'',
     ''transition'', ''metal'', ''nonmetal'', ''periodic'', ''table'', ''group'', ''period'',
     ''alkali'', ''halogen'', ''noble'', ''gas'', ''solid'', ''liquid'',
     ''solution'', ''solvent'', ''solute'', ''dissolve'', ''precipitate'',
     ''exothermic'', ''endothermic'', ''energy'', ''enthalpy'', ''entropy'']"

definition extract_chemistry_keywords :: "string \<Rightarrow> string set" where
  "extract_chemistry_keywords text =
     (let text_lower = lower text
      in foldl (\<lambda>keywords term. if contains term text_lower then insert term keywords
                                  else keywords)
               {} chemistry_terms)"

subsection \<open>\<open>_normalize_answer_choices\<close>\<close>

definition choice_letter :: re where
  \<comment> \<open>\<^verbatim>\<open>[a-d]\<close> under \<open>re.IGNORECASE\<close>\<close>
  "choice_letter = Cls (\<lambda>c. in_range 97 100 (lower_char c))"

definition paren_choice_re :: re where
  \<comment> \<open>\<^verbatim>\<open>\([a-d]\)\<close>\<close>
  "paren_choice_re = Seqs [Chr CHR ''('', choice_letter, Chr CHR '')'']"

definition bracket_choice_re :: re where
  \<comment> \<open>\<^verbatim>\<open>\[[a-d]\]\<close>\<close>
  "bracket_choice_re = Seqs [Chr CHR ''['', choice_letter, Chr CHR '']'']"

definition dash_choice_re :: re where
  \<comment> \<open>\<^verbatim>\<open>([a-d])-\s*\<close>\<close>
  "dash_choice_re = Seqs [choice_letter, Chr CHR ''-'', Star (Cls is_space)]"

definition dot_choice_re :: re where
  \<comment> \<open>\<^verbatim>\<open>([a-d])\.\s*\<close>\<close>
  "dot_choice_re = Seqs [choice_letter, Chr CHR ''.'', Star (Cls is_space)]"

definition second_then_paren :: "string \<Rightarrow> string" where
  \<comment> \<open>\<^verbatim>\<open>lambda m: m.group(0)[1] + ')'\<close>; a match has three characters\<close>
  "second_then_paren m = take 1 (drop 1 m) @ '')''"

definition letter_then_paren :: "string \<Rightarrow> string" where
  \<comment> \<open>the template \<^verbatim>\<open>\1) \<close>; group 1 is the first character of the match\<close>
  "letter_then_paren m = take 1 m @ '') ''"

definition normalize_answer_choices :: "string \<Rightarrow> string" where
  "normalize_answer_choices text =
     (let text = re_sub paren_choice_re second_then_paren None text;
          text = re_sub bracket_choice_re second_then_paren None text;
          text = re_sub dash_choice_re letter_then_paren None text;
          text = re_sub dot_choice_re letter_then_paren None text
      in text)"

subsection \<open>\<open>_extract_question_fingerprint\<close>\<close>

definition question_number_re :: re where
  \<comment> \<open>\<^verbatim>\<open>(?:question|q)?\s*\d+[:\)\.-]?\s*\<close> under \<open>re.IGNORECASE\<close>\<close>
  "question_number_re = Seqs [Opt (Alt (Lit_i ''question'') (Lit_i ''q'')), Star (Cls is_space),
     Plus (Cls is_digit), Opt (Cls (\<lambda>c. c \<in> set '':).-'')), Star (Cls is_space)]"

definition fillers :: "string list" where
  "fillers = ['' the '', '' a '', '' an '', '' is '', '' are '', '' of '', '' in '', '' at '',
     '' to '', '' from '', '' with '']"

definition spaced_number_re :: re where
  \<comment> \<open>\<^verbatim>\<open>([A-Z][a-z]?)\s+(\d+)\<close>\<close>
  "spaced_number_re = Seqs [Cls is_upper_az, Opt (Cls is_lower_az), Plus (Cls is_space),
     Plus (Cls is_digit)]"

definition groups_1_2 :: "string \<Rightarrow> string" where
  \<comment> \<open>the template \<^verbatim>\<open>\1\2\<close>: group 1 is the letters before the whitespace, group 2
      the digits behind it\<close>
  "groups_1_2 m = takeWhile (\<lambda>c. \<not> is_space c) m
                    @ dropWhile is_space (dropWhile (\<lambda>c. \<not> is_space c) m)"

definition punctuation_re :: re where
  \<comment> \<open>\<^verbatim>\<open>[^\w\s\+\-\=\(\)\[\]]\<close>\<close>
  "punctuation_re = Cls (\<lambda>c. \<not> (is_word c \<or> is_space c \<or> c \<in> set ''+-=()[]''))"

definition extract_question_fingerprint :: "string \<Rightarrow> string" where
  "extract_question_fingerprint text =
     (let text = lower text;
          text = re_sub question_number_re (\<lambda>m. '' '') None text;
          text = normalize_answer_choices text;
          text = join '' '' (split text);
          text = foldl (\<lambda>text filler. replace filler '' '' text) text fillers;
          text = re_sub spaced_number_re groups_1_2 None text;
          text = re_sub punctuation_re (\<lambda>m. []) None text;
          text = join '' '' (split text)
      in strip text)"

subsection \<open>The first match of the question-number pattern, as a function on strings\<close>

text \<open>
  These functions are not in the source: they say where the first match of
  \<open>question_number_re\<close> at the start of a string ends, and the properties of the
  fingerprint are proved through them.  \<open>number_tail\<close> is the part \<^verbatim>\<open>\d+[:\)\.-]?\s*\<close>,
  \<open>after_word w\<close> the pattern with the word \<open>w\<close> in front, and
  \<open>question_number_rest s\<close> the text behind the match, if there is one.
\<close>

definition first_rest :: "re \<Rightarrow> cursor \<Rightarrow> string option" where
  \<comment> \<open>the text behind the end that the matcher reaches first\<close>
  "first_rest r k = (case ends r k of [] \<Rightarrow> None | k' # _ \<Rightarrow> Some (snd k'))"

fun drop_marker :: "string \<Rightarrow> string" where
  "drop_marker [] = []"
| "drop_marker (c # cs) = (if c \<in> set '':).-'' then cs else c # cs)"

definition number_tail :: "string \<Rightarrow> string option" where
  "number_tail s =
     (case s of [] \<Rightarrow> None
      | c # cs \<Rightarrow> if is_digit c
                  then Some (dropWhile is_space (drop_marker (dropWhile is_digit cs)))
                  else None)"

definition prefix_i :: "string \<Rightarrow> string \<Rightarrow> bool" where
  "prefix_i w s = (length w \<le> length s
                   \<and> map lower_char (take (length w) s) = map lower_char w)"

definition after_word :: "string \<Rightarrow> string \<Rightarrow> string option" where
  "after_word w s =
     (if prefix_i w s then number_tail (dropWhile is_space (drop (length w) s)) else None)"

definition question_number_rest :: "string \<Rightarrow> string option" where
  "question_number_rest s =
     (case after_word ''question'' s of
        Some r \<Rightarrow> Some r
      | None \<Rightarrow> (case after_word ''q'' s of
                   Some r \<Rightarrow> Some r
                 | None \<Rightarrow> after_word [] s))"

subsection \<open>\<open>_create_question_signature\<close>\<close>

record signature =
  fingerprint :: string
  formulas :: "string set"
  numbers :: "string set"
  "keywords" :: "string set"

definition create_question_signature :: "string \<Rightarrow> signature" where
  "create_question_signature text =
     \<lparr> fingerprint = extract_question_fingerprint text,
       formulas = extract_chemical_formulas text,
       numbers = extract_numbers_and_units text,
       keywords = extract_chemistry_keywords text \<rparr>"

section \<open>Similarity scorer\<close>

text \<open>
  Python floats are modelled as real numbers.  \<open>SequenceMatcher(None, a, b).ratio()\<close> is
  the standard library's; the model takes it as the parameter \<open>ratio\<close>.
\<close>

definition compute_fuzzy_similarity :: "(string \<Rightarrow> string \<Rightarrow> real) \<Rightarrow> string \<Rightarrow> string \<Rightarrow> real" where
  "compute_fuzzy_similarity ratio text1 text2 = ratio text1 text2"

definition compute_set_overlap :: "string set \<Rightarrow> string set \<Rightarrow> real" where
  "compute_set_overlap set1 set2 =
     (if set1 = {} \<or> set2 = {} then 0
      else let intersection = card (set1 \<inter> set2); union = card (set1 \<union> set2)
           in if union > 0 then real intersection / real union else 0)"

record scores =
  fingerprint_score :: real
  formulas_score :: real
  numbers_score :: real
  keywords_score :: real
  combined :: real

definition compute_signature_similarity ::
    "(string \<Rightarrow> string \<Rightarrow> real) \<Rightarrow> signature \<Rightarrow> signature \<Rightarrow> scores" where
  "compute_signature_similarity ratio sig1 sig2 =
     (let fp = compute_fuzzy_similarity ratio (fingerprint sig1) (fingerprint sig2);
          fo = compute_set_overlap (formulas sig1) (formulas sig2);
          nu = compute_set_overlap (numbers sig1) (numbers sig2);
          kw = compute_set_overlap (keywords sig1) (keywords sig2)
      in \<lparr> fingerprint_score = fp, formulas_score = fo, numbers_score = nu,
           keywords_score = kw,
           combined = fp * 0.40 + fo * 0.35 + kw * 0.15 + nu * 0.10 \<rparr>)"

definition compute_cosine_similarity :: "real list \<Rightarrow> real list \<Rightarrow> real option" where
  \<comment> \<open>\<open>np.dot\<close> raises on vectors of different lengths: \<open>None\<close>\<close>
  "compute_cosine_similarity embedding1 embedding2 =
     (if length embedding1 \<noteq> length embedding2 then None
      else let dot_product = sum_list (map2 (*) embedding1 embedding2);
               norm1 = sqrt (sum_list (map (\<lambda>x. x * x) embedding1));
               norm2 = sqrt (sum_list (map (\<lambda>x. x * x) embedding2))
           in if norm1 = 0 \<or> norm2 = 0 then Some 0
              else Some (dot_product / (norm1 * norm2)))"

definition HIGH_CONFIDENCE_THRESHOLD :: real where
  "HIGH_CONFIDENCE_THRESHOLD = 0.85"

definition MEDIUM_CONFIDENCE_THRESHOLD :: real where
  "MEDIUM_CONFIDENCE_THRESHOLD = 0.75"

definition SEMANTIC_EMBEDDING_THRESHOLD :: real where
  "SEMANTIC_EMBEDDING_THRESHOLD = 0.82"

section \<open>Question cache store\<close>

text \<open>
  The two tables of \<open>database.py\<close> that the cache touches, as lists of rows in table
  order.  Timestamps are natural numbers and \<open>CURRENT_TIMESTAMP\<close> is the argument
  \<open>now\<close>.  The columns \<open>id\<close> and \<open>is_corrected\<close> exist in both tables; those of
  \<open>interactions\<close> are \<open>ix_id\<close> and \<open>ix_is_corrected\<close> here, and \<open>id\<close> of
  \<open>cached_scientific_questions\<close> is \<open>cq_id\<close>.

  A statement can raise.  Two causes are decided by its arguments: the driver refuses
  a string that contains the character NUL, and PostgreSQL refuses a value that is too
  long for a \<open>VARCHAR(n)\<close> column, unless the characters in excess are all spaces, which
  it then cuts off.  Every other cause (the connection, the server) is the flag
  \<open>raises\<close> of the two functions whose callers handle the exception,
  \<open>cache_scientific_question\<close> and \<open>update_cached_question_answer\<close>.
\<close>

record cached_question =
  cq_id :: nat
  question_text :: string
  normalized_text :: string
  answer_text :: string
  embedding :: "real list option"
  image_hash :: "string option"
  times_used :: int
  last_used :: nat
  created_at :: nat
  is_corrected :: bool
  corrected_at :: "nat option"
  correction_source :: "string option"
  metadata :: "(string \<times> string) list option"

record interaction =
  ix_id :: nat
  timestamp :: nat
  user_id :: string
  intent :: "string option"
  response_type :: "string option"
  confidence :: "real option"
  response_time :: "real option"
  user_input :: "string option"
  bot_response :: "string option"
  ix_is_corrected :: bool
  corrected_text :: "string option"
  user_feedback :: int
  chat_type :: string
  image_path :: "string option"
  cached_question_id :: "nat option"

record store =
  cached_scientific_questions :: "cached_question list"
  interactions :: "interaction list"
  next_cached_id :: nat

text \<open>
  \<open>ORDER BY last_used DESC\<close>; rows with equal \<open>last_used\<close> keep their table order
  (SQL leaves their order open).
\<close>

definition order_by_last_used_desc :: "cached_question list \<Rightarrow> cached_question list" where
  "order_by_last_used_desc rows = sort_key (\<lambda>r. - int (last_used r)) rows"

definition has_nul :: "string \<Rightarrow> bool" where
  "has_nul s = (CHR 0x00 \<in> set s)"

text \<open>The value that a \<open>VARCHAR(n)\<close> column stores for \<open>s\<close>; \<open>None\<close>: the statement raises.\<close>

definition varchar :: "nat \<Rightarrow> string \<Rightarrow> string option" where
  "varchar n s =
     (if length s \<le> n then Some s
      else if drop n s = replicate (length s - n) (CHR '' '') then Some (take n s)
      else None)"

text \<open>
  The arguments for which the \<open>INSERT\<close> of \<open>cache_scientific_question\<close> raises:
  \<open>image_hash\<close> is \<open>VARCHAR(64)\<close>, the three texts are \<open>TEXT\<close>, and JSONB has no NUL.
\<close>

definition insert_rejected ::
    "string \<Rightarrow> string \<Rightarrow> string \<Rightarrow> string option \<Rightarrow> (string \<times> string) list option \<Rightarrow> bool" where
  "insert_rejected question_text' normalized_text' answer_text' image_hash' metadata' =
     (has_nul question_text' \<or> has_nul normalized_text' \<or> has_nul answer_text'
      \<or> (case image_hash' of None \<Rightarrow> False | Some h \<Rightarrow> has_nul h \<or> varchar 64 h = None)
      \<or> (case metadata' of None \<Rightarrow> False
          | Some d \<Rightarrow> list_ex (\<lambda>(k, v). has_nul k \<or> has_nul v) d))"

text \<open>
  \<open>Json(metadata) if metadata else None\<close>: a missing and an empty dictionary are both
  stored as NULL.  On an exception the function rolls back and returns \<open>None\<close>.
\<close>

definition cache_scientific_question ::
    "bool \<Rightarrow> store \<Rightarrow> nat \<Rightarrow> string \<Rightarrow> string \<Rightarrow> string \<Rightarrow> real list \<Rightarrow> string option
      \<Rightarrow> (string \<times> string) list option \<Rightarrow> nat option \<times> store" where
  "cache_scientific_question raises db now question_text' normalized_text' answer_text'
       embedding' image_hash' metadata' =
     (if raises \<or> insert_rejected question_text' normalized_text' answer_text' image_hash' metadata'
      then (None, db)
      else let cached_id = next_cached_id db;
               row = \<lparr> cq_id = cached_id, question_text = question_text',
                       normalized_text = normalized_text', answer_text = answer_text',
                       embedding = Some embedding',
                       image_hash = (case image_hash' of None \<Rightarrow> None | Some h \<Rightarrow> varchar 64 h),
                       times_used = 1, last_used = now, created_at = now,
                       is_corrected = False, corrected_at = None, correction_source = None,
                       metadata = (if metadata' = Some [] then None else metadata') \<rparr>
           in (Some cached_id,
               db \<lparr> cached_scientific_questions := cached_scientific_questions db @ [row],
                    next_cached_id := Suc cached_id \<rparr>))"

text \<open>
  \<open>get_cached_question_by_image_hash\<close> has no handler: the driver refuses a hash with
  the character NUL and the exception leaves the function (\<open>None\<close>).  The row that it
  returns is the one fetched, before its usage statistics are updated.
\<close>

definition get_cached_question_by_image_hash ::
    "store \<Rightarrow> nat \<Rightarrow> string \<Rightarrow> (cached_question option \<times> store) option" where
  "get_cached_question_by_image_hash db now image_hash' =
     (if has_nul image_hash' then None
      else case order_by_last_used_desc
             (filter (\<lambda>r. image_hash r = Some image_hash') (cached_scientific_questions db)) of
        [] \<Rightarrow> Some (None, db)
      | row # _ \<Rightarrow>
          Some (Some row,
           db \<lparr> cached_scientific_questions :=
                  map (\<lambda>r. if cq_id r = cq_id row
                            then r \<lparr> times_used := times_used r + 1, last_used := now \<rparr> else r)
                      (cached_scientific_questions db) \<rparr>))"

text \<open>The seven columns that \<open>get_recent_cached_questions\<close> selects.\<close>

record recent_question =
  r_id :: nat
  r_question_text :: string
  r_normalized_text :: string
  r_answer_text :: string
  r_embedding :: "real list option"
  r_times_used :: int
  r_is_corrected :: bool

definition recent_columns :: "cached_question \<Rightarrow> recent_question" where
  "recent_columns r =
     \<lparr> r_id = cq_id r, r_question_text = question_text r,
       r_normalized_text = normalized_text r, r_answer_text = answer_text r,
       r_embedding = embedding r, r_times_used = times_used r,
       r_is_corrected = is_corrected r \<rparr>"

definition get_recent_cached_questions :: "store \<Rightarrow> nat \<Rightarrow> recent_question list" where
  "get_recent_cached_questions db limit =
     map recent_columns (take limit (order_by_last_used_desc (cached_scientific_questions db)))"

text \<open>
  \<open>update_cached_question_answer\<close> has no handler: an exception of the \<open>UPDATE\<close> leaves
  the function (\<open>None\<close>) before the commit.  \<open>correction_source\<close> is \<open>VARCHAR(50)\<close>.
\<close>

definition update_rejected :: "string \<Rightarrow> string \<Rightarrow> bool" where
  "update_rejected new_answer correction_source' =
     (has_nul new_answer \<or> has_nul correction_source' \<or> varchar 50 correction_source' = None)"

definition update_cached_question_answer ::
    "bool \<Rightarrow> store \<Rightarrow> nat \<Rightarrow> nat \<Rightarrow> string \<Rightarrow> string \<Rightarrow> bool option \<times> store" where
  "update_cached_question_answer raises db now cached_question_id' new_answer correction_source' =
     (if raises \<or> update_rejected new_answer correction_source' then (None, db)
      else let rowcount = length (filter (\<lambda>r. cq_id r = cached_question_id')
                                    (cached_scientific_questions db));
               db' = db \<lparr> cached_scientific_questions :=
                       map (\<lambda>r. if cq_id r = cached_question_id'
                                 then r \<lparr> answer_text := new_answer, is_corrected := True,
                                          corrected_at := Some now,
                                          correction_source := varchar 50 correction_source' \<rparr>
                                 else r)
                           (cached_scientific_questions db) \<rparr>
           in (Some (rowcount > 0), db'))"

subsection \<open>\<open>delete_cached_question\<close> of the dashboard\<close>

text \<open>
  The handler works on one connection: its statements change the working copy, and the
  database is the working copy after \<open>commit\<close> and the old state after \<open>rollback\<close>.
\<close>

record connection =
  committed :: store
  working :: store

definition get_db_connection :: "store \<Rightarrow> connection" where
  "get_db_connection db = \<lparr> committed = db, working = db \<rparr>"

definition commit :: "connection \<Rightarrow> store" where
  "commit t = working t"

definition rollback :: "connection \<Rightarrow> store" where
  "rollback t = committed t"

datatype response =
    Deleted nat "nat list"  \<comment> \<open>\<open>success: True\<close>, the number of unlinked interactions in the
                               message, \<open>affected_interactions\<close>\<close>
  | Failed string           \<comment> \<open>\<open>success: False\<close>, \<open>error\<close>\<close>

definition delete_cached_question :: "store \<Rightarrow> nat \<Rightarrow> response \<times> store" where
  "delete_cached_question db cached_id =
     (let t = get_db_connection db;
          affected_ids = map ix_id (filter (\<lambda>i. cached_question_id i = Some cached_id)
                                           (interactions (working t)));
          unlinked_count = length (filter (\<lambda>i. cached_question_id i = Some cached_id)
                                          (interactions (working t)));
          t = t \<lparr> working := (working t) \<lparr> interactions :=
                  map (\<lambda>i. if cached_question_id i = Some cached_id
                            then i \<lparr> cached_question_id := None, ix_is_corrected := False,
                                     corrected_text := None \<rparr>
                            else i)
                      (interactions (working t)) \<rparr> \<rparr>;
          deleted = filter (\<lambda>r. cq_id r = cached_id) (cached_scientific_questions (working t));
          t = t \<lparr> working := (working t) \<lparr> cached_scientific_questions :=
                  filter (\<lambda>r. cq_id r \<noteq> cached_id) (cached_scientific_questions (working t)) \<rparr> \<rparr>
      in if deleted \<noteq> [] then (Deleted unlinked_count affected_ids, commit t)
         else (Failed ''Cached question not found'', rollback t))"

section \<open>Deduplication engine\<close>

text \<open>
  \<open>self.embeddings\<close> is \<open>None\<close> when the client could not be built, and otherwise the
  embedding service: \<open>embed_query\<close> returns a vector or raises (\<open>None\<close>).  The calls
  that leave the process are recorded, in order.
\<close>

type_synonym embedder = "string \<Rightarrow> real list option"

datatype event = Db_image_hash_lookup string | Db_fetch_recent nat | Db_insert | Embed_query string

text \<open>
  What \<open>find_similar_question\<close> returns: the full row of the image-hash lookup, or an
  entry of the recent pool.
\<close>

datatype hit = Image_hit cached_question | Pool_hit recent_question

fun hit_is_corrected :: "hit \<Rightarrow> bool" where
  "hit_is_corrected (Image_hit row) = is_corrected row"
| "hit_is_corrected (Pool_hit q) = r_is_corrected q"

text \<open>The loop of layer 2 over the pool, with \<open>best_match\<close> and \<open>best_score\<close>.\<close>

fun signature_scan ::
    "(string \<Rightarrow> string \<Rightarrow> real) \<Rightarrow> signature \<Rightarrow> recent_question list
      \<Rightarrow> recent_question option \<times> real \<Rightarrow> recent_question option \<times> real" where
  "signature_scan ratio incoming_sig [] best = best"
| "signature_scan ratio incoming_sig (cached_q # rest) (best_match, best_score) =
     (if \<not> r_is_corrected cached_q then signature_scan ratio incoming_sig rest (best_match, best_score)
      else let cached_sig = create_question_signature (r_question_text cached_q);
               scores = compute_signature_similarity ratio incoming_sig cached_sig
           in if combined scores > best_score
              then signature_scan ratio incoming_sig rest (Some cached_q, combined scores)
              else signature_scan ratio incoming_sig rest (best_match, best_score))"

text \<open>
  The loop of layer 3.  An entry without a stored embedding, or with an empty one, is
  skipped; a vector of another length makes \<open>np.dot\<close> raise (\<open>None\<close>).
\<close>

fun semantic_scan ::
    "real list \<Rightarrow> recent_question list \<Rightarrow> recent_question option \<times> real
      \<Rightarrow> (recent_question option \<times> real) option" where
  "semantic_scan question_embedding [] best = Some best"
| "semantic_scan question_embedding (cached_q # rest) (best_match, best_score) =
     (if \<not> r_is_corrected cached_q \<or> r_embedding cached_q = None \<or> r_embedding cached_q = Some []
      then semantic_scan question_embedding rest (best_match, best_score)
      else case compute_cosine_similarity question_embedding (the (r_embedding cached_q)) of
             None \<Rightarrow> None
           | Some semantic_sim \<Rightarrow>
               if semantic_sim > best_score
               then semantic_scan question_embedding rest (Some cached_q, semantic_sim)
               else semantic_scan question_embedding rest (best_match, best_score))"

text \<open>
  Layers 2 and 3 of \<open>find_similar_question\<close>: the code after the image-hash check, with
  the store and the calls made so far.  An exception (of \<open>embed_query\<close>, of \<open>np.dot\<close>) is
  caught by the handler of the function, which returns \<open>None\<close>.
\<close>

definition signature_and_semantic_layers ::
    "(string \<Rightarrow> string \<Rightarrow> real) \<Rightarrow> embedder \<Rightarrow> store \<Rightarrow> event list \<Rightarrow> string
      \<Rightarrow> hit option \<times> store \<times> event list" where
  "signature_and_semantic_layers ratio embed_query db trace question_text' =
     (let incoming_sig = create_question_signature question_text';
          cached_questions = get_recent_cached_questions db 200;
          trace = trace @ [Db_fetch_recent 200];
          (best_match, best_score) =
             signature_scan ratio incoming_sig cached_questions (None, 0)
      in if best_score \<ge> HIGH_CONFIDENCE_THRESHOLD
         then (map_option Pool_hit best_match, db, trace)
         else if best_score \<ge> MEDIUM_CONFIDENCE_THRESHOLD
         then (map_option Pool_hit best_match, db, trace)
         else
           let trace = trace @ [Embed_query question_text']
           in case embed_query question_text' of
                None \<Rightarrow> (None, db, trace)
              | Some question_embedding \<Rightarrow>
                  (case semantic_scan question_embedding cached_questions (None, 0) of
                     None \<Rightarrow> (None, db, trace)
                   | Some (best_semantic_match, best_semantic_score) \<Rightarrow>
                       if best_semantic_score \<ge> SEMANTIC_EMBEDDING_THRESHOLD
                       then (map_option Pool_hit best_semantic_match, db, trace)
                       else (None, db, trace)))"

text \<open>
  \<open>find_similar_question\<close>: the guard on the embedding client, the image-hash check (for a
  hash that is given and not empty), then layers 2 and 3.  When the lookup raises, the
  handler returns \<open>None\<close>.
\<close>

definition find_similar_question ::
    "(string \<Rightarrow> string \<Rightarrow> real) \<Rightarrow> embedder option \<Rightarrow> store \<Rightarrow> nat \<Rightarrow> string \<Rightarrow> string option
      \<Rightarrow> hit option \<times> store \<times> event list" where
  "find_similar_question ratio embeddings db now question_text' image_hash' =
     (case embeddings of
        None \<Rightarrow> (None, db, [])
      | Some embed_query \<Rightarrow>
          (case image_hash' of
             None \<Rightarrow> signature_and_semantic_layers ratio embed_query db [] question_text'
           | Some h \<Rightarrow>
               if h = [] then signature_and_semantic_layers ratio embed_query db [] question_text'
               else (case get_cached_question_by_image_hash db now h of
                       None \<Rightarrow> (None, db, [Db_image_hash_lookup h])
                     | Some (exact_match, db') \<Rightarrow>
                         if (case exact_match of None \<Rightarrow> False | Some row \<Rightarrow> is_corrected row)
                         then (map_option Image_hit exact_match, db', [Db_image_hash_lookup h])
                         else signature_and_semantic_layers ratio embed_query db'
                                [Db_image_hash_lookup h] question_text')))"

definition cache_question ::
    "embedder option \<Rightarrow> bool \<Rightarrow> store \<Rightarrow> nat \<Rightarrow> string \<Rightarrow> string \<Rightarrow> string option
      \<Rightarrow> (string \<times> string) list option \<Rightarrow> bool \<times> store \<times> event list" where
  "cache_question embeddings raises db now question_text' answer_text' image_hash' metadata' =
     (case embeddings of
        None \<Rightarrow> (False, db, [])
      | Some embed_query \<Rightarrow>
          let signature = create_question_signature question_text';
              normalized_text' = fingerprint signature
          in case embed_query question_text' of
               None \<Rightarrow> (False, db, [Embed_query question_text'])
             | Some question_embedding \<Rightarrow>
                 let (cached_id, db') =
                       cache_scientific_question raises db now question_text' normalized_text'
                         answer_text' question_embedding image_hash' metadata'
                 in ((case cached_id of None \<Rightarrow> False | Some n \<Rightarrow> n \<noteq> 0), db',
                     [Embed_query question_text', Db_insert]))"

text \<open>The wrapper of the engine catches the exception and returns \<open>False\<close>.\<close>

definition update_cached_answer ::
    "bool \<Rightarrow> store \<Rightarrow> nat \<Rightarrow> nat \<Rightarrow> string \<Rightarrow> string \<Rightarrow> bool \<times> store" where
  "update_cached_answer raises db now cached_question_id' new_answer correction_source' =
     (case update_cached_question_answer raises db now cached_question_id' new_answer
             correction_source' of
        (None, db') \<Rightarrow> (False, db')
      | (Some success, db') \<Rightarrow> (success, db'))"

subsection \<open>Names for the parts of \<open>find_similar_question\<close>\<close>

text \<open>
  The statements about \<open>find_similar_question\<close> speak of the pool it scans and of the
  score of a pool entry against the incoming question.
\<close>

definition pool :: "store \<Rightarrow> recent_question list" where
  "pool db = get_recent_cached_questions db 200"

text \<open>\<open>served_by hit row\<close>: the hit is the row, or it has the columns of the row.\<close>

definition served_by :: "hit \<Rightarrow> cached_question \<Rightarrow> bool" where
  "served_by hit' row =
     (case hit' of
        Image_hit r \<Rightarrow> r = row
      | Pool_hit q \<Rightarrow> r_id q = cq_id row \<and> r_question_text q = question_text row
                     \<and> r_answer_text q = answer_text row \<and> r_embedding q = embedding row
                     \<and> r_is_corrected q = is_corrected row)"

definition signature_score :: "(string \<Rightarrow> string \<Rightarrow> real) \<Rightarrow> string \<Rightarrow> recent_question \<Rightarrow> real" where
  "signature_score ratio question_text' cached_q =
     combined (compute_signature_similarity ratio (create_question_signature question_text')
                 (create_question_signature (r_question_text cached_q)))"

definition has_embedding :: "recent_question \<Rightarrow> bool" where
  "has_embedding cached_q = (r_embedding cached_q \<noteq> None \<and> r_embedding cached_q \<noteq> Some [])"

definition semantic_eligible :: "recent_question \<Rightarrow> bool" where
  "semantic_eligible cached_q = (r_is_corrected cached_q \<and> has_embedding cached_q)"

definition shape_mismatch :: "real list \<Rightarrow> recent_question \<Rightarrow> bool" where
  "shape_mismatch question_embedding cached_q =
     (case r_embedding cached_q of
        None \<Rightarrow> False | Some v \<Rightarrow> length question_embedding \<noteq> length v)"

definition semantic_score :: "real list \<Rightarrow> recent_question \<Rightarrow> real" where
  "semantic_score question_embedding cached_q =
     (case r_embedding cached_q of
        None \<Rightarrow> 0
      | Some v \<Rightarrow> (case compute_cosine_similarity question_embedding v of
                    None \<Rightarrow> 0 | Some s \<Rightarrow> s))"

text \<open>
  \<open>first_best ok score qs q\<close>: \<open>q\<close> is the first of the entries of \<open>qs\<close> that satisfy
  \<open>ok\<close> and have the largest score among them.
\<close>

definition first_best :: "('a \<Rightarrow> bool) \<Rightarrow> ('a \<Rightarrow> real) \<Rightarrow> 'a list \<Rightarrow> 'a \<Rightarrow> bool" where
  "first_best ok score qs q =
     (\<exists>pre post. qs = pre @ q # post \<and> ok q
        \<and> (\<forall>p \<in> set pre. ok p \<longrightarrow> score p < score q)
        \<and> (\<forall>p \<in> set post. ok p \<longrightarrow> score p \<le> score q))"

section \<open>Example data\<close>

definition example_row ::
    "nat \<Rightarrow> string \<Rightarrow> string option \<Rightarrow> nat \<Rightarrow> bool \<Rightarrow> real list option \<Rightarrow> cached_question" where
  "example_row i q h used approved emb =
     \<lparr> cq_id = i, question_text = q, normalized_text = q, answer_text = ''answer'',
       embedding = emb, image_hash = h, times_used = 1, last_used = used, created_at = 0,
       is_corrected = approved, corrected_at = None, correction_source = None,
       metadata = None \<rparr>"

definition example_interaction :: "nat \<Rightarrow> nat option \<Rightarrow> interaction" where
  "example_interaction i link =
     \<lparr> ix_id = i, timestamp = 0, user_id = ''u'', intent = None, response_type = None,
       confidence = None, response_time = None, user_input = Some ''question'',
       bot_response = Some ''answer'', ix_is_corrected = True,
       corrected_text = Some ''corrected'', user_feedback = 0, chat_type = ''scientific'',
       image_path = None, cached_question_id = link \<rparr>"

definition example_store :: store where
  "example_store =
     \<lparr> cached_scientific_questions =
         [example_row 7 ''What is the oxidation state of Fe in Fe2O3?'' (Some ''abc123'') 5 True
            (Some [1, 0]),
          example_row 8 ''Is NaCl soluble in water?'' (Some ''abc123'') 9 False (Some [0, 1])],
       interactions =
         [example_interaction 1 (Some 7), example_interaction 2 (Some 7),
          example_interaction 3 (Some 7), example_interaction 4 (Some 8)],
       next_cached_id = 9 \<rparr>"


section \<open>Properties of the signature extractor and the scorer\<close>

lemma foldl_insert_if:
  "foldl (\<lambda>acc m. if P m then insert (g m) acc else acc) A ms = A \<union> g ` {m \<in> set ms. P m}"
  by (induction ms arbitrary: A) auto

lemma upper_char_not_lower: "\<not> is_lower_az (upper_char c)"
  by (auto simp: upper_char_def is_lower_az_def in_range_def cp_def)

lemma formulas_of_iron_oxide:
  "extract_chemical_formulas ''Fe2O3 reacts with H2SO4'' = {''FE2O3'', ''H2SO4''}"
  by code_simp

lemma formulas_of_plain_sentence:
  "extract_chemical_formulas ''Is this an oxidation reaction'' = {}"
  by code_simp

text \<open>
  C8.  The formulas of a text are the upper-cased matches of the formula pattern, without
  the matches of one character and without the matches on the list of English words; so
  every formula has at least two characters and no lower-case letter.  The sentence
  "Is this an oxidation reaction" has no formula, and "Fe2O3 reacts with H2SO4" has the
  formulas FE2O3 and H2SO4.
\<close>

theorem extract_formulas_uppercase_and_exclusions:
  "extract_chemical_formulas text
     = upper ` {m \<in> set (re_findall formula_re None text). m \<notin> english_words \<and> length m > 1}
   \<and> (\<forall>f \<in> extract_chemical_formulas text. length f > 1 \<and> (\<forall>c \<in> set f. \<not> is_lower_az c))
   \<and> extract_chemical_formulas ''Is this an oxidation reaction'' = {}
   \<and> extract_chemical_formulas ''Fe2O3 reacts with H2SO4'' = {''FE2O3'', ''H2SO4''}"
proof -
  have eq: "extract_chemical_formulas text
     = upper ` {m \<in> set (re_findall formula_re None text). m \<notin> english_words \<and> length m > 1}"
    unfolding extract_chemical_formulas_def by (simp add: foldl_insert_if)
  have up: "\<forall>f \<in> extract_chemical_formulas text. length f > 1 \<and> (\<forall>c \<in> set f. \<not> is_lower_az c)"
    unfolding eq by (auto simp: upper_def upper_char_not_lower)
  show ?thesis using eq up formulas_of_iron_oxide formulas_of_plain_sentence by blast
qed

theorem extract_formulas_witness:
  "''FE2O3'' \<in> extract_chemical_formulas ''Fe2O3 reacts with H2SO4''
   \<and> length ''FE2O3'' > 1 \<and> \<not> is_lower_az CHR ''F''"
proof -
  have m: "''FE2O3'' \<in> extract_chemical_formulas ''Fe2O3 reacts with H2SO4''"
    by (simp add: formulas_of_iron_oxide)
  have "\<forall>c \<in> set ''FE2O3''. \<not> is_lower_az c"
    using m extract_formulas_uppercase_and_exclusions [of "''Fe2O3 reacts with H2SO4''"]
    by blast
  then have "\<not> is_lower_az CHR ''F''" by simp
  then show ?thesis using m by simp
qed

text \<open>
  C9.  The combined score of two signatures is 0.40 times the fingerprint similarity plus
  0.35 times the formula overlap plus 0.15 times the keyword overlap plus 0.10 times the
  number overlap; and of two score records, the one with one larger component and the
  other three equal has the combined score that is not smaller.
\<close>

theorem combined_score_weights_monotone:
  assumes "sc = compute_signature_similarity ratio sig1 sig2"
    and "sc' = compute_signature_similarity ratio' sig1' sig2'"
  shows "combined sc = 0.40 * fingerprint_score sc + 0.35 * formulas_score sc
                         + 0.15 * keywords_score sc + 0.10 * numbers_score sc
    \<and> fingerprint_score sc = ratio (fingerprint sig1) (fingerprint sig2)
    \<and> formulas_score sc = compute_set_overlap (formulas sig1) (formulas sig2)
    \<and> keywords_score sc = compute_set_overlap (keywords sig1) (keywords sig2)
    \<and> numbers_score sc = compute_set_overlap (numbers sig1) (numbers sig2)
    \<and> (fingerprint_score sc \<le> fingerprint_score sc' \<and> formulas_score sc = formulas_score sc'
         \<and> keywords_score sc = keywords_score sc' \<and> numbers_score sc = numbers_score sc'
        \<longrightarrow> combined sc \<le> combined sc')
    \<and> (fingerprint_score sc = fingerprint_score sc' \<and> formulas_score sc \<le> formulas_score sc'
         \<and> keywords_score sc = keywords_score sc' \<and> numbers_score sc = numbers_score sc'
        \<longrightarrow> combined sc \<le> combined sc')
    \<and> (fingerprint_score sc = fingerprint_score sc' \<and> formulas_score sc = formulas_score sc'
         \<and> keywords_score sc \<le> keywords_score sc' \<and> numbers_score sc = numbers_score sc'
        \<longrightarrow> combined sc \<le> combined sc')
    \<and> (fingerprint_score sc = fingerprint_score sc' \<and> formulas_score sc = formulas_score sc'
         \<and> keywords_score sc = keywords_score sc' \<and> numbers_score sc \<le> numbers_score sc'
        \<longrightarrow> combined sc \<le> combined sc')"
  using assms
  by (simp add: compute_signature_similarity_def compute_fuzzy_similarity_def Let_def)

theorem combined_score_weights_monotone_witness:
  "combined (compute_signature_similarity (\<lambda>a b. 0)
       \<lparr>fingerprint = ''fe o'', formulas = {''FE2O3''}, numbers = {}, keywords = {''oxidation''}\<rparr>
       \<lparr>fingerprint = ''fe o'', formulas = {''FE2O3''}, numbers = {}, keywords = {''oxidation''}\<rparr>)
   \<le> combined (compute_signature_similarity (\<lambda>a b. 1)
       \<lparr>fingerprint = ''fe o'', formulas = {''FE2O3''}, numbers = {}, keywords = {''oxidation''}\<rparr>
       \<lparr>fingerprint = ''fe o'', formulas = {''FE2O3''}, numbers = {}, keywords = {''oxidation''}\<rparr>)"
proof -
  let ?s = "\<lparr>fingerprint = ''fe o'', formulas = {''FE2O3''}, numbers = {},
             keywords = {''oxidation''}\<rparr>"
  let ?sc = "compute_signature_similarity (\<lambda>a b. 0) ?s ?s"
  let ?sc' = "compute_signature_similarity (\<lambda>a b. 1) ?s ?s"
  have h: "fingerprint_score ?sc \<le> fingerprint_score ?sc' \<and> formulas_score ?sc = formulas_score ?sc'
         \<and> keywords_score ?sc = keywords_score ?sc' \<and> numbers_score ?sc = numbers_score ?sc'"
    by (simp add: compute_signature_similarity_def compute_fuzzy_similarity_def Let_def)
  show ?thesis
    using h combined_score_weights_monotone [OF refl refl, of "\<lambda>a b. 0" ?s ?s "\<lambda>a b. 1" ?s ?s]
    by blast
qed

text \<open>
  C6.  The fingerprint operation is not idempotent: "x the the y" has the fingerprint
  "x the y", whose fingerprint is "x y".
\<close>

theorem fingerprint_not_idempotent:
  "extract_question_fingerprint (extract_question_fingerprint ''x the the y'')
     \<noteq> extract_question_fingerprint ''x the the y''"
  by code_simp

section \<open>Properties of the store operations\<close>

lemma map_if_unchanged: "(\<And>x. x \<in> set xs \<Longrightarrow> \<not> P x) \<Longrightarrow> map (\<lambda>x. if P x then f x else x) xs = xs"
  by (induction xs) auto

lemma delete_found:
  assumes "\<exists>r \<in> set (cached_scientific_questions db). cq_id r = cached_id"
  shows "delete_cached_question db cached_id
    = (Deleted (length (filter (\<lambda>i. cached_question_id i = Some cached_id) (interactions db)))
               (map ix_id (filter (\<lambda>i. cached_question_id i = Some cached_id) (interactions db))),
       db \<lparr> interactions := map (\<lambda>i. if cached_question_id i = Some cached_id
                       then i \<lparr> cached_question_id := None, ix_is_corrected := False,
                                corrected_text := None \<rparr>
                       else i) (interactions db),
            cached_scientific_questions := filter (\<lambda>r. cq_id r \<noteq> cached_id) (cached_scientific_questions db) \<rparr>)"
proof -
  have ne: "filter (\<lambda>r. cq_id r = cached_id) (cached_scientific_questions db) \<noteq> []"
    using assms by (simp add: filter_empty_conv)
  show ?thesis
    unfolding delete_cached_question_def get_db_connection_def commit_def rollback_def Let_def
    using ne by simp
qed

lemma delete_not_found:
  assumes "\<not> (\<exists>r \<in> set (cached_scientific_questions db). cq_id r = cached_id)"
  shows "delete_cached_question db cached_id = (Failed ''Cached question not found'', db)"
proof -
  have e: "filter (\<lambda>r. cq_id r = cached_id) (cached_scientific_questions db) = []"
    using assms by (simp add: filter_empty_conv)
  show ?thesis
    unfolding delete_cached_question_def get_db_connection_def commit_def rollback_def Let_def
    using e by simp
qed

text \<open>
  C3.  Deleting a cached question whose row exists sets, in every interaction that links
  to it, the link to null, the correction flag to false and the corrected text to null,
  leaves the other interactions as they are, and removes the row; the handler answers
  with the number and the ids of the interactions it unlinked, and commits once.  When
  no row has the id, the handler rolls back: it answers "Cached question not found" and
  the store is the one before.
\<close>

theorem delete_cached_question_cascade:
  "((\<exists>r \<in> set (cached_scientific_questions db). cq_id r = cached_id) \<longrightarrow>
      fst (delete_cached_question db cached_id)
         = Deleted (length (filter (\<lambda>i. cached_question_id i = Some cached_id) (interactions db)))
                   (map ix_id (filter (\<lambda>i. cached_question_id i = Some cached_id) (interactions db)))
    \<and> interactions (snd (delete_cached_question db cached_id))
         = map (\<lambda>i. if cached_question_id i = Some cached_id
                     then i \<lparr> cached_question_id := None, ix_is_corrected := False,
                              corrected_text := None \<rparr>
                     else i) (interactions db)
    \<and> (\<forall>i \<in> set (interactions (snd (delete_cached_question db cached_id))).
          cached_question_id i \<noteq> Some cached_id)
    \<and> cached_scientific_questions (snd (delete_cached_question db cached_id))
         = filter (\<lambda>r. cq_id r \<noteq> cached_id) (cached_scientific_questions db))
   \<and> (\<not> (\<exists>r \<in> set (cached_scientific_questions db). cq_id r = cached_id) \<longrightarrow>
      delete_cached_question db cached_id = (Failed ''Cached question not found'', db))"
proof (intro conjI impI)
  assume a: "\<exists>r \<in> set (cached_scientific_questions db). cq_id r = cached_id"
  show "fst (delete_cached_question db cached_id)
         = Deleted (length (filter (\<lambda>i. cached_question_id i = Some cached_id) (interactions db)))
                   (map ix_id (filter (\<lambda>i. cached_question_id i = Some cached_id) (interactions db)))"
    by (simp add: delete_found [OF a])
  show i: "interactions (snd (delete_cached_question db cached_id))
         = map (\<lambda>i. if cached_question_id i = Some cached_id
                     then i \<lparr> cached_question_id := None, ix_is_corrected := False,
                              corrected_text := None \<rparr>
                     else i) (interactions db)"
    by (simp add: delete_found [OF a])
  show "\<forall>i \<in> set (interactions (snd (delete_cached_question db cached_id))).
          cached_question_id i \<noteq> Some cached_id"
    unfolding i by auto
  show "cached_scientific_questions (snd (delete_cached_question db cached_id))
         = filter (\<lambda>r. cq_id r \<noteq> cached_id) (cached_scientific_questions db)"
    by (simp add: delete_found [OF a])
next
  assume "\<not> (\<exists>r \<in> set (cached_scientific_questions db). cq_id r = cached_id)"
  then show "delete_cached_question db cached_id = (Failed ''Cached question not found'', db)"
    by (rule delete_not_found)
qed

theorem delete_cached_question_cascade_witness:
  "(\<exists>r \<in> set (cached_scientific_questions example_store). cq_id r = 7)
   \<and> fst (delete_cached_question example_store 7) = Deleted 3 [1, 2, 3]
   \<and> map cached_question_id (interactions (snd (delete_cached_question example_store 7)))
       = [None, None, None, Some 8]
   \<and> map ix_is_corrected (interactions (snd (delete_cached_question example_store 7)))
       = [False, False, False, True]
   \<and> map corrected_text (interactions (snd (delete_cached_question example_store 7)))
       = [None, None, None, Some ''corrected'']
   \<and> map cq_id (cached_scientific_questions (snd (delete_cached_question example_store 7))) = [8]
   \<and> \<not> (\<exists>r \<in> set (cached_scientific_questions example_store). cq_id r = 3)
   \<and> delete_cached_question example_store 3 = (Failed ''Cached question not found'', example_store)"
proof -
  have h: "\<exists>r \<in> set (cached_scientific_questions example_store). cq_id r = 7"
    by (simp add: example_store_def example_row_def)
  have n: "\<not> (\<exists>r \<in> set (cached_scientific_questions example_store). cq_id r = 3)"
    by (simp add: example_store_def example_row_def)
  note t7 = delete_cached_question_cascade [of example_store 7]
  note t3 = delete_cached_question_cascade [of example_store 3]
  have a0: "fst (delete_cached_question example_store 7)
         = Deleted (length (filter (\<lambda>i. cached_question_id i = Some 7) (interactions example_store)))
                   (map ix_id (filter (\<lambda>i. cached_question_id i = Some 7) (interactions example_store)))"
    using t7 h by blast
  have a: "fst (delete_cached_question example_store 7) = Deleted 3 [1, 2, 3]"
    unfolding a0 by (simp add: example_store_def example_interaction_def)
  have b: "interactions (snd (delete_cached_question example_store 7))
     = map (\<lambda>i. if cached_question_id i = Some 7
                     then i \<lparr> cached_question_id := None, ix_is_corrected := False,
                              corrected_text := None \<rparr>
                     else i) (interactions example_store)"
    using t7 h by blast
  have c: "cached_scientific_questions (snd (delete_cached_question example_store 7))
         = filter (\<lambda>r. cq_id r \<noteq> 7) (cached_scientific_questions example_store)"
    using t7 h by blast
  have d: "delete_cached_question example_store 3 = (Failed ''Cached question not found'', example_store)"
    using t3 n by blast
  have b1: "map cached_question_id (interactions (snd (delete_cached_question example_store 7)))
       = [None, None, None, Some 8]"
    unfolding b by (simp add: example_store_def example_interaction_def)
  have b2: "map ix_is_corrected (interactions (snd (delete_cached_question example_store 7)))
       = [False, False, False, True]"
    unfolding b by (simp add: example_store_def example_interaction_def)
  have b3: "map corrected_text (interactions (snd (delete_cached_question example_store 7)))
       = [None, None, None, Some ''corrected'']"
    unfolding b by (simp add: example_store_def example_interaction_def)
  have c1: "map cq_id (cached_scientific_questions (snd (delete_cached_question example_store 7))) = [8]"
    unfolding c by (simp add: example_store_def example_row_def)
  show ?thesis using h a b1 b2 b3 c1 n d by blast
qed

section \<open>The scans of the pool\<close>

lemma signature_scan_step:
  "signature_scan ratio (create_question_signature t) (q # qs) (bm, bs)
     = (if r_is_corrected q \<and> signature_score ratio t q > bs
        then signature_scan ratio (create_question_signature t) qs (Some q, signature_score ratio t q)
        else signature_scan ratio (create_question_signature t) qs (bm, bs))"
  by (simp add: signature_score_def Let_def)

lemma signature_scan_spec:
  "signature_scan ratio (create_question_signature t) qs (bm, bs) = (bm', bs')
   \<Longrightarrow> bs \<le> bs'
     \<and> (\<forall>p \<in> set qs. r_is_corrected p \<longrightarrow> signature_score ratio t p \<le> bs')
     \<and> ((bm', bs') = (bm, bs)
        \<or> (\<exists>q. bm' = Some q \<and> bs' = signature_score ratio t q \<and> bs < bs'
              \<and> first_best r_is_corrected (signature_score ratio t) qs q))"
proof (induction qs arbitrary: bm bs)
  case Nil
  then show ?case by simp
next
  case (Cons a qs)
  show ?case
  proof (cases "r_is_corrected a \<and> signature_score ratio t a > bs")
    case True
    then have s: "signature_scan ratio (create_question_signature t) qs (Some a, signature_score ratio t a) = (bm', bs')"
      using Cons.prems True by (simp add: signature_scan_step del: signature_scan.simps)
    note ih = Cons.IH [OF s]
    from ih have le: "signature_score ratio t a \<le> bs'" by blast
    from ih have all: "\<forall>p \<in> set qs. r_is_corrected p \<longrightarrow> signature_score ratio t p \<le> bs'" by blast
    from ih consider (same) "(bm', bs') = (Some a, signature_score ratio t a)"
      | (later) q where "bm' = Some q" "bs' = signature_score ratio t q"
          "signature_score ratio t a < bs'"
          "first_best r_is_corrected (signature_score ratio t) qs q"
      by blast
    then show ?thesis
    proof cases
      case same
      then have "first_best r_is_corrected (signature_score ratio t) (a # qs) a"
        unfolding first_best_def using True all by (intro exI [of _ "[]"] exI [of _ qs]) auto
      then show ?thesis using same True all by auto
    next
      case later
      from later(4) obtain pre post where pp: "qs = pre @ q # post" "r_is_corrected q"
        "\<forall>p \<in> set pre. r_is_corrected p \<longrightarrow> signature_score ratio t p < signature_score ratio t q"
        "\<forall>p \<in> set post. r_is_corrected p \<longrightarrow> signature_score ratio t p \<le> signature_score ratio t q"
        unfolding first_best_def by blast
      have "first_best r_is_corrected (signature_score ratio t) (a # qs) q"
        unfolding first_best_def using pp later(2,3)
        by (intro exI [of _ "a # pre"] exI [of _ post]) auto
      then show ?thesis using later True all le by auto
    qed
  next
    case False
    then have s: "signature_scan ratio (create_question_signature t) qs (bm, bs) = (bm', bs')"
      using Cons.prems False by (simp add: signature_scan_step del: signature_scan.simps)
    note ih = Cons.IH [OF s]
    from ih have le: "bs \<le> bs'" by blast
    from ih have all: "\<forall>p \<in> set qs. r_is_corrected p \<longrightarrow> signature_score ratio t p \<le> bs'" by blast
    have a: "r_is_corrected a \<longrightarrow> signature_score ratio t a \<le> bs'" using False le by auto
    from ih consider (same) "(bm', bs') = (bm, bs)"
      | (later) q where "bm' = Some q" "bs' = signature_score ratio t q" "bs < bs'"
          "first_best r_is_corrected (signature_score ratio t) qs q"
      by blast
    then show ?thesis
    proof cases
      case same
      then show ?thesis using a all le by auto
    next
      case later
      from later(4) obtain pre post where pp: "qs = pre @ q # post" "r_is_corrected q"
        "\<forall>p \<in> set pre. r_is_corrected p \<longrightarrow> signature_score ratio t p < signature_score ratio t q"
        "\<forall>p \<in> set post. r_is_corrected p \<longrightarrow> signature_score ratio t p \<le> signature_score ratio t q"
        unfolding first_best_def by blast
      have "r_is_corrected a \<longrightarrow> signature_score ratio t a < signature_score ratio t q"
        using False later(2,3) by auto
      then have "first_best r_is_corrected (signature_score ratio t) (a # qs) q"
        unfolding first_best_def using pp
        by (intro exI [of _ "a # pre"] exI [of _ post]) auto
      then show ?thesis using later a all le by auto
    qed
  qed
qed

lemma cosine_none_iff:
  "(compute_cosine_similarity qe v = None) = (length qe \<noteq> length v)"
  by (simp add: compute_cosine_similarity_def Let_def)

lemma cosine_some_length:
  "compute_cosine_similarity qe v = Some s \<Longrightarrow> length qe = length v"
  by (simp add: compute_cosine_similarity_def Let_def split: if_splits)

lemma semantic_scan_skip:
  "\<not> semantic_eligible q \<Longrightarrow> semantic_scan qe (q # qs) (bm, bs) = semantic_scan qe qs (bm, bs)"
  by (auto simp: semantic_eligible_def has_embedding_def)

lemma semantic_scan_mismatch:
  "semantic_eligible q \<Longrightarrow> shape_mismatch qe q \<Longrightarrow> semantic_scan qe (q # qs) (bm, bs) = None"
  by (auto simp: semantic_eligible_def has_embedding_def shape_mismatch_def cosine_none_iff
      split: option.splits dest: cosine_some_length)

lemma semantic_scan_step:
  "semantic_eligible q \<Longrightarrow> \<not> shape_mismatch qe q \<Longrightarrow>
   semantic_scan qe (q # qs) (bm, bs)
     = (if semantic_score qe q > bs then semantic_scan qe qs (Some q, semantic_score qe q)
        else semantic_scan qe qs (bm, bs))"
  by (auto simp: semantic_eligible_def has_embedding_def shape_mismatch_def semantic_score_def
      cosine_none_iff split: option.splits dest: cosine_some_length)


lemma semantic_scan_spec:
  "semantic_scan qe qs (bm, bs) = Some (bm', bs')
   \<Longrightarrow> bs \<le> bs'
     \<and> (\<forall>p \<in> set qs. semantic_eligible p \<longrightarrow> semantic_score qe p \<le> bs')
     \<and> ((bm', bs') = (bm, bs)
        \<or> (\<exists>q. bm' = Some q \<and> bs' = semantic_score qe q \<and> bs < bs'
              \<and> first_best semantic_eligible (semantic_score qe) qs q))"
proof (induction qs arbitrary: bm bs)
  case Nil
  then show ?case by simp
next
  case (Cons a qs)
  have nm: "semantic_eligible a \<longrightarrow> \<not> shape_mismatch qe a"
    using Cons.prems by (auto simp: semantic_scan_mismatch simp del: semantic_scan.simps)
  show ?case
  proof (cases "semantic_eligible a \<and> semantic_score qe a > bs")
    case True
    then have s: "semantic_scan qe qs (Some a, semantic_score qe a) = Some (bm', bs')"
      using Cons.prems True nm by (simp add: semantic_scan_step del: semantic_scan.simps)
    note ih = Cons.IH [OF s]
    from ih have le: "semantic_score qe a \<le> bs'" by blast
    from ih have all: "\<forall>p \<in> set qs. semantic_eligible p \<longrightarrow> semantic_score qe p \<le> bs'" by blast
    from ih consider (same) "(bm', bs') = (Some a, semantic_score qe a)"
      | (later) q where "bm' = Some q" "bs' = semantic_score qe q"
          "semantic_score qe a < bs'"
          "first_best semantic_eligible (semantic_score qe) qs q"
      by blast
    then show ?thesis
    proof cases
      case same
      then have "first_best semantic_eligible (semantic_score qe) (a # qs) a"
        unfolding first_best_def using True all by (intro exI [of _ "[]"] exI [of _ qs]) auto
      then show ?thesis using same True all by auto
    next
      case later
      from later(4) obtain pre post where pp: "qs = pre @ q # post" "semantic_eligible q"
        "\<forall>p \<in> set pre. semantic_eligible p \<longrightarrow> semantic_score qe p < semantic_score qe q"
        "\<forall>p \<in> set post. semantic_eligible p \<longrightarrow> semantic_score qe p \<le> semantic_score qe q"
        unfolding first_best_def by blast
      have "first_best semantic_eligible (semantic_score qe) (a # qs) q"
        unfolding first_best_def using pp later(2,3)
        by (intro exI [of _ "a # pre"] exI [of _ post]) auto
      then show ?thesis using later True all le by auto
    qed
  next
    case False
    then have s: "semantic_scan qe qs (bm, bs) = Some (bm', bs')"
      using Cons.prems False nm
      by (cases "semantic_eligible a") (simp_all add: semantic_scan_step semantic_scan_skip del: semantic_scan.simps)
    note ih = Cons.IH [OF s]
    from ih have le: "bs \<le> bs'" by blast
    from ih have all: "\<forall>p \<in> set qs. semantic_eligible p \<longrightarrow> semantic_score qe p \<le> bs'" by blast
    have a: "semantic_eligible a \<longrightarrow> semantic_score qe a \<le> bs'" using False le by auto
    from ih consider (same) "(bm', bs') = (bm, bs)"
      | (later) q where "bm' = Some q" "bs' = semantic_score qe q" "bs < bs'"
          "first_best semantic_eligible (semantic_score qe) qs q"
      by blast
    then show ?thesis
    proof cases
      case same
      then show ?thesis using a all le by auto
    next
      case later
      from later(4) obtain pre post where pp: "qs = pre @ q # post" "semantic_eligible q"
        "\<forall>p \<in> set pre. semantic_eligible p \<longrightarrow> semantic_score qe p < semantic_score qe q"
        "\<forall>p \<in> set post. semantic_eligible p \<longrightarrow> semantic_score qe p \<le> semantic_score qe q"
        unfolding first_best_def by blast
      have "semantic_eligible a \<longrightarrow> semantic_score qe a < semantic_score qe q"
        using False later(2,3) by auto
      then have "first_best semantic_eligible (semantic_score qe) (a # qs) q"
        unfolding first_best_def using pp
        by (intro exI [of _ "a # pre"] exI [of _ post]) auto
      then show ?thesis using later a all le by auto
    qed
  qed
qed

section \<open>Properties of the answer update\<close>

lemma map_if_cases:
  "r \<in> set (map (\<lambda>x. if P x then g x else x) xs)
     \<Longrightarrow> \<exists>x. x \<in> set xs \<and> r = (if P x then g x else x)"
  by auto

lemma update_raises:
  "raises \<or> update_rejected new_answer src
     \<Longrightarrow> update_cached_answer raises db now cid new_answer src = (False, db)"
  unfolding update_cached_answer_def update_cached_question_answer_def by simp

lemma update_result:
  "\<not> raises \<Longrightarrow> \<not> update_rejected new_answer src \<Longrightarrow>
   update_cached_answer raises db now cid new_answer src
     = (\<exists>r \<in> set (cached_scientific_questions db). cq_id r = cid,
        db \<lparr> cached_scientific_questions :=
               map (\<lambda>r. if cq_id r = cid
                         then r \<lparr> answer_text := new_answer, is_corrected := True,
                                  corrected_at := Some now,
                                  correction_source := varchar 50 src \<rparr>
                         else r) (cached_scientific_questions db) \<rparr>)"
proof -
  assume h: "\<not> raises" "\<not> update_rejected new_answer src"
  have "(0 < length (filter (\<lambda>r. cq_id r = cid) (cached_scientific_questions db)))
          = (\<exists>r \<in> set (cached_scientific_questions db). cq_id r = cid)"
    by (simp add: filter_empty_conv)
  then show ?thesis using h
    unfolding update_cached_answer_def update_cached_question_answer_def Let_def by simp
qed

lemma update_unchanged:
  assumes "\<not> raises" "\<not> update_rejected new_answer src"
    and "map (\<lambda>r. if cq_id r = cid
                   then r \<lparr> answer_text := new_answer, is_corrected := True,
                            corrected_at := Some now, correction_source := varchar 50 src \<rparr>
                   else r) (cached_scientific_questions db) = cached_scientific_questions db"
  shows "snd (update_cached_answer raises db now cid new_answer src) = db"
  unfolding update_result [OF assms(1,2)] snd_conv assms(3) by simp

text \<open>
  C5, the claim as it is worded, at an input.  The store has a row with the id 8, the
  correction source has 68 characters, more than the 50 of its column: the \<open>UPDATE\<close>
  raises, the wrapper returns false and the row is as it was.
\<close>

theorem update_cached_answer_false_with_row_present:
  "map cq_id (cached_scientific_questions example_store) = [7, 8]
   \<and> length ''administrator correction after review by the chemistry teaching team'' = 68
   \<and> update_cached_answer False example_store 11 8 ''new answer''
        ''administrator correction after review by the chemistry teaching team''
       = (False, example_store)"
proof -
  have a: "map cq_id (cached_scientific_questions example_store) = [7, 8]"
    by (simp add: example_store_def example_row_def)
  have b: "length ''administrator correction after review by the chemistry teaching team'' = 68"
    by simp
  have r: "update_rejected ''new answer''
             ''administrator correction after review by the chemistry teaching team''"
    by (simp add: update_rejected_def varchar_def)
  have c: "update_cached_answer False example_store 11 8 ''new answer''
        ''administrator correction after review by the chemistry teaching team''
       = (False, example_store)"
    using r unfolding update_cached_answer_def update_cached_question_answer_def by simp
  from a b c show ?thesis by (intro conjI)
qed


lemma varchar_stored: "varchar n s \<noteq> None \<Longrightarrow> varchar n s = Some (take n s)"
  by (simp add: varchar_def split: if_splits)

text \<open>
  C5, amended.  \<open>update_cached_answer\<close> returns true exactly when the \<open>UPDATE\<close> does not
  raise and a row of the cache has the id.  Then every row with the id has the new answer,
  the correction flag set, the correction time \<open>now\<close> and the correction source (its
  first 50 characters), and everything else in the store is as before.  When it returns
  false, also when the statement raised with the row present, the store is unchanged.
\<close>

theorem update_cached_answer_true_iff_accepted_and_found:
  "fst (update_cached_answer raises db now cid new_answer src)
     = (\<not> raises \<and> \<not> update_rejected new_answer src
        \<and> (\<exists>r \<in> set (cached_scientific_questions db). cq_id r = cid))
   \<and> (fst (update_cached_answer raises db now cid new_answer src)
        \<longrightarrow> snd (update_cached_answer raises db now cid new_answer src)
            = db \<lparr> cached_scientific_questions :=
                 map (\<lambda>r. if cq_id r = cid
                   then r \<lparr> answer_text := new_answer, is_corrected := True,
                            corrected_at := Some now, correction_source := Some (take 50 src) \<rparr>
                   else r) (cached_scientific_questions db) \<rparr>)
   \<and> (fst (update_cached_answer raises db now cid new_answer src)
        \<longrightarrow> (\<forall>r \<in> set (cached_scientific_questions
                          (snd (update_cached_answer raises db now cid new_answer src))).
               cq_id r = cid \<longrightarrow> answer_text r = new_answer \<and> is_corrected r
                 \<and> corrected_at r = Some now \<and> correction_source r = Some (take 50 src)))
   \<and> (\<not> fst (update_cached_answer raises db now cid new_answer src)
         \<longrightarrow> snd (update_cached_answer raises db now cid new_answer src) = db)"
proof (cases "raises \<or> update_rejected new_answer src")
  case True
  then have "update_cached_answer raises db now cid new_answer src = (False, db)"
    by (rule update_raises)
  then show ?thesis using True by auto
next
  case False
  then have nr: "\<not> raises" and na: "\<not> update_rejected new_answer src" by simp_all
  have v: "varchar 50 src = Some (take 50 src)"
    using na by (intro varchar_stored) (simp add: update_rejected_def)
  let ?g = "\<lambda>x. x \<lparr> answer_text := new_answer, is_corrected := True,
                    corrected_at := Some now, correction_source := Some (take 50 src) \<rparr>"
  let ?P = "\<lambda>x. cq_id x = cid"
  let ?U = "update_cached_answer raises db now cid new_answer src"
  note res = update_result [OF nr na, of db now cid, unfolded v]
  have a: "fst ?U = (\<exists>r \<in> set (cached_scientific_questions db). cq_id r = cid)"
    by (simp add: res)
  have b: "snd ?U = db \<lparr> cached_scientific_questions :=
                 map (\<lambda>x. if ?P x then ?g x else x) (cached_scientific_questions db) \<rparr>"
    by (simp add: res)
  have b': "cached_scientific_questions (snd ?U)
       = map (\<lambda>x. if ?P x then ?g x else x) (cached_scientific_questions db)"
    unfolding b by simp
  have c: "\<forall>r \<in> set (cached_scientific_questions (snd ?U)).
         cq_id r = cid \<longrightarrow> answer_text r = new_answer \<and> is_corrected r
           \<and> corrected_at r = Some now \<and> correction_source r = Some (take 50 src)"
  proof (intro ballI impI)
    fix r
    assume m: "r \<in> set (cached_scientific_questions (snd ?U))"
      and i: "cq_id r = cid"
    have "\<exists>x. x \<in> set (cached_scientific_questions db) \<and> r = (if ?P x then ?g x else x)"
      using m unfolding b' by (rule map_if_cases [of r ?P ?g "cached_scientific_questions db"])
    then obtain x where r: "r = (if ?P x then ?g x else x)" by blast
    show "answer_text r = new_answer \<and> is_corrected r
           \<and> corrected_at r = Some now \<and> correction_source r = Some (take 50 src)"
    proof (cases "cq_id x = cid")
      case True
      then have "r = ?g x" using r by simp
      then show ?thesis by simp
    next
      case False
      then have "r = x" using r by simp
      then show ?thesis using False i by simp
    qed
  qed
  have d: "\<not> fst ?U \<longrightarrow> snd ?U = db"
  proof
    assume "\<not> fst ?U"
    then have n: "\<And>r. r \<in> set (cached_scientific_questions db) \<Longrightarrow> \<not> ?P r"
      using a by blast
    have "map (\<lambda>x. if ?P x then ?g x else x) (cached_scientific_questions db)
            = cached_scientific_questions db"
      using n by (rule map_if_unchanged [of "cached_scientific_questions db" ?P ?g])
    then show "snd ?U = db"
      unfolding b by simp
  qed
  have a': "fst ?U = (\<not> raises \<and> \<not> update_rejected new_answer src
        \<and> (\<exists>r \<in> set (cached_scientific_questions db). cq_id r = cid))"
    using a nr na by simp
  have b2: "fst ?U \<longrightarrow> snd ?U = db \<lparr> cached_scientific_questions :=
                 map (\<lambda>x. if ?P x then ?g x else x) (cached_scientific_questions db) \<rparr>"
    using b by (rule impI)
  have c2: "fst ?U \<longrightarrow> (\<forall>r \<in> set (cached_scientific_questions (snd ?U)).
         cq_id r = cid \<longrightarrow> answer_text r = new_answer \<and> is_corrected r
           \<and> corrected_at r = Some now \<and> correction_source r = Some (take 50 src))"
    using c by (rule impI)
  from a' b2 c2 d show ?thesis by (intro conjI)
qed


theorem update_cached_answer_true_iff_accepted_and_found_witness:
  "fst (update_cached_answer False example_store 11 8 ''new answer'' ''admin_approval'')
   \<and> map is_corrected (cached_scientific_questions (snd (update_cached_answer False example_store 11 8 ''new answer'' ''admin_approval''))) = [True, True]
   \<and> map answer_text (cached_scientific_questions (snd (update_cached_answer False example_store 11 8 ''new answer'' ''admin_approval''))) = [''answer'', ''new answer'']
   \<and> map corrected_at (cached_scientific_questions (snd (update_cached_answer False example_store 11 8 ''new answer'' ''admin_approval''))) = [None, Some 11]
   \<and> map correction_source (cached_scientific_questions (snd (update_cached_answer False example_store 11 8 ''new answer'' ''admin_approval'')))
       = [None, Some ''admin_approval'']
   \<and> \<not> fst (update_cached_answer False example_store 11 3 ''new answer'' ''admin_approval'')
   \<and> snd (update_cached_answer False example_store 11 3 ''new answer'' ''admin_approval'') = example_store
   \<and> \<not> fst (update_cached_answer True example_store 11 8 ''new answer'' ''admin_approval'')
   \<and> snd (update_cached_answer True example_store 11 8 ''new answer'' ''admin_approval'') = example_store"
proof -
  note t8 = update_cached_answer_true_iff_accepted_and_found
              [of False example_store 11 8 "''new answer''" "''admin_approval''"]
  note t3 = update_cached_answer_true_iff_accepted_and_found
              [of False example_store 11 3 "''new answer''" "''admin_approval''"]
  note tr = update_cached_answer_true_iff_accepted_and_found
              [of True example_store 11 8 "''new answer''" "''admin_approval''"]
  have acc: "\<not> update_rejected ''new answer'' ''admin_approval''"
    by (simp add: update_rejected_def varchar_def has_nul_def)
  have h: "\<exists>r \<in> set (cached_scientific_questions example_store). cq_id r = 8"
    by (simp add: example_store_def example_row_def)
  have n: "\<not> (\<exists>r \<in> set (cached_scientific_questions example_store). cq_id r = 3)"
    by (simp add: example_store_def example_row_def)
  have a: "fst (update_cached_answer False example_store 11 8 ''new answer'' ''admin_approval'')"
    using t8 h acc by blast
  have b: "snd (update_cached_answer False example_store 11 8 ''new answer'' ''admin_approval'') = example_store \<lparr> cached_scientific_questions :=
                 map (\<lambda>r. if cq_id r = 8
                   then r \<lparr> answer_text := ''new answer'', is_corrected := True,
                            corrected_at := Some 11,
                            correction_source := Some (take 50 ''admin_approval'') \<rparr>
                   else r) (cached_scientific_questions example_store) \<rparr>"
    using t8 a by blast
  have c: "\<not> fst (update_cached_answer False example_store 11 3 ''new answer'' ''admin_approval'')"
    using t3 n by blast
  have d: "snd (update_cached_answer False example_store 11 3 ''new answer'' ''admin_approval'') = example_store"
    using t3 c by blast
  have e: "\<not> fst (update_cached_answer True example_store 11 8 ''new answer'' ''admin_approval'')"
    using tr by blast
  have f: "snd (update_cached_answer True example_store 11 8 ''new answer'' ''admin_approval'') = example_store"
    using tr e by blast
  have b1: "map is_corrected (cached_scientific_questions (snd (update_cached_answer False example_store 11 8 ''new answer'' ''admin_approval''))) = [True, True]"
    unfolding b by (simp add: example_store_def example_row_def)
  have b2: "map answer_text (cached_scientific_questions (snd (update_cached_answer False example_store 11 8 ''new answer'' ''admin_approval'')))
       = [''answer'', ''new answer'']"
    unfolding b by (simp add: example_store_def example_row_def)
  have b3: "map corrected_at (cached_scientific_questions (snd (update_cached_answer False example_store 11 8 ''new answer'' ''admin_approval''))) = [None, Some 11]"
    unfolding b by (simp add: example_store_def example_row_def)
  have b4: "map correction_source (cached_scientific_questions (snd (update_cached_answer False example_store 11 8 ''new answer'' ''admin_approval'')))
       = [None, Some ''admin_approval'']"
    unfolding b by (simp add: example_store_def example_row_def)
  show ?thesis using a b1 b2 b3 b4 c d e f by blast
qed

section \<open>Properties of \<open>cache_question\<close>\<close>

lemma cache_no_client:
  "cache_question None raises db now q a h md = (False, db, [])"
  by (simp add: cache_question_def)

lemma cache_embed_fails:
  "e q = None \<Longrightarrow> cache_question (Some e) raises db now q a h md = (False, db, [Embed_query q])"
  by (simp add: cache_question_def Let_def)

lemma cache_insert_raises:
  "e q = Some v \<Longrightarrow> raises \<or> insert_rejected q (extract_question_fingerprint q) a h md
     \<Longrightarrow> cache_question (Some e) raises db now q a h md
         = (False, db, [Embed_query q, Db_insert])"
  by (simp add: cache_question_def cache_scientific_question_def create_question_signature_def
        Let_def)

lemma stored_image_hash:
  "\<not> insert_rejected q n a h md
     \<Longrightarrow> (case h of None \<Rightarrow> None | Some x \<Rightarrow> varchar 64 x) = map_option (take 64) h"
  by (cases h) (auto simp: insert_rejected_def varchar_def split: if_splits)

lemma cache_inserts:
  assumes "e q = Some v" "\<not> raises"
    and "\<not> insert_rejected q (extract_question_fingerprint q) a h md"
  shows "cache_question (Some e) raises db now q a h md
     = (next_cached_id db \<noteq> 0,
        db \<lparr> cached_scientific_questions := cached_scientific_questions db @
                [\<lparr> cq_id = next_cached_id db, question_text = q,
                   normalized_text = extract_question_fingerprint q, answer_text = a,
                   embedding = Some v, image_hash = map_option (take 64) h,
                   times_used = 1, last_used = now,
                   created_at = now, is_corrected = False, corrected_at = None,
                   correction_source = None,
                   metadata = (if md = Some [] then None else md) \<rparr>],
             next_cached_id := Suc (next_cached_id db) \<rparr>,
        [Embed_query q, Db_insert])"
  using assms(1,2,3) stored_image_hash [OF assms(3)]
  by (simp add: cache_question_def cache_scientific_question_def create_question_signature_def
        Let_def)


text \<open>
  C4.  When the embedding client is missing or \<open>embed_query\<close> raises, \<open>cache_question\<close>
  returns false, the store is unchanged and no insert was issued.  When it returns true,
  the embedding was obtained first, the insert did not raise, and the store has exactly
  one more row: the new, unapproved entry with this question, its fingerprint, the answer,
  that embedding, the image hash as its column holds it and the metadata, which is NULL
  for a missing and for an empty dictionary.  When the insert raises, it returns false and
  the store is unchanged.
\<close>

theorem cache_question_embedding_failure:
  "((embeddings = None \<or> (\<exists>e. embeddings = Some e \<and> e q = None))
      \<longrightarrow> fst (cache_question embeddings raises db now q a h md) = False
        \<and> fst (snd (cache_question embeddings raises db now q a h md)) = db
        \<and> Db_insert \<notin> set (snd (snd (cache_question embeddings raises db now q a h md))))
   \<and> (fst (cache_question embeddings raises db now q a h md)
      \<longrightarrow> (\<exists>e v. embeddings = Some e \<and> e q = Some v \<and> \<not> raises
            \<and> \<not> insert_rejected q (extract_question_fingerprint q) a h md
            \<and> snd (snd (cache_question embeddings raises db now q a h md)) = [Embed_query q, Db_insert]
            \<and> fst (snd (cache_question embeddings raises db now q a h md))
                = db \<lparr> cached_scientific_questions := cached_scientific_questions db @
                  [\<lparr> cq_id = next_cached_id db, question_text = q,
                     normalized_text = extract_question_fingerprint q, answer_text = a,
                     embedding = Some v, image_hash = map_option (take 64) h,
                     times_used = 1, last_used = now,
                     created_at = now, is_corrected = False, corrected_at = None,
                     correction_source = None,
                     metadata = (if md = Some [] then None else md) \<rparr>],
                   next_cached_id := Suc (next_cached_id db) \<rparr>))
   \<and> (raises \<or> insert_rejected q (extract_question_fingerprint q) a h md
        \<longrightarrow> fst (cache_question embeddings raises db now q a h md) = False
        \<and> fst (snd (cache_question embeddings raises db now q a h md)) = db)"
proof (cases embeddings)
  case None
  then show ?thesis by (simp add: cache_no_client)
next
  case (Some e)
  show ?thesis
  proof (cases "e q")
    case None
    then show ?thesis using Some by (simp add: cache_embed_fails)
  next
    case (Some v)
    note v = Some
    show ?thesis
    proof (cases "raises \<or> insert_rejected q (extract_question_fingerprint q) a h md")
      case True
      have "cache_question (Some e) raises db now q a h md = (False, db, [Embed_query q, Db_insert])"
        using v True by (rule cache_insert_raises [of e q v raises a h md db now])
      then show ?thesis using \<open>embeddings = Some e\<close> v True by simp
    next
      case False
      then have nr: "\<not> raises"
        and na: "\<not> insert_rejected q (extract_question_fingerprint q) a h md" by simp_all
      note r = cache_inserts [of e q v raises a h md db now, OF v nr na]
      show ?thesis using \<open>embeddings = Some e\<close> v nr na unfolding \<open>embeddings = Some e\<close> r
        by simp
    qed
  qed
qed


theorem cache_question_embedding_failure_witness:
  "fst (cache_question (Some (\<lambda>t. None)) False example_store 11 ''What is pH?'' ''answer'' None (Some [])) = False
   \<and> fst (snd (cache_question (Some (\<lambda>t. None)) False example_store 11 ''What is pH?'' ''answer'' None (Some []))) = example_store
   \<and> fst (cache_question (Some (\<lambda>t. Some [1, 0])) False example_store 11 ''What is pH?'' ''answer'' None (Some []))
   \<and> map cq_id (cached_scientific_questions (fst (snd (cache_question (Some (\<lambda>t. Some [1, 0])) False example_store 11 ''What is pH?'' ''answer'' None (Some []))))) = [7, 8, 9]
   \<and> map is_corrected (cached_scientific_questions (fst (snd (cache_question (Some (\<lambda>t. Some [1, 0])) False example_store 11 ''What is pH?'' ''answer'' None (Some []))))) = [True, False, False]
   \<and> map metadata (cached_scientific_questions (fst (snd (cache_question (Some (\<lambda>t. Some [1, 0])) False example_store 11 ''What is pH?'' ''answer'' None (Some []))))) = [None, None, None]
   \<and> fst (cache_question (Some (\<lambda>t. Some [1, 0])) True example_store 11 ''What is pH?'' ''answer'' None (Some [])) = False
   \<and> fst (snd (cache_question (Some (\<lambda>t. Some [1, 0])) True example_store 11 ''What is pH?'' ''answer'' None (Some []))) = example_store"
proof -
  note f = cache_question_embedding_failure [of "Some (\<lambda>t. None)" "''What is pH?''" False
      example_store 11 "''answer''" None "Some []"]
  note g = cache_question_embedding_failure [of "Some (\<lambda>t. Some [1, 0])" "''What is pH?''" False
      example_store 11 "''answer''" None "Some []"]
  note k = cache_question_embedding_failure [of "Some (\<lambda>t. Some [1, 0])" "''What is pH?''" True
      example_store 11 "''answer''" None "Some []"]
  have h: "Some (\<lambda>t::string. None :: real list option) = None
      \<or> (\<exists>e. Some (\<lambda>t::string. None :: real list option) = Some e \<and> e ''What is pH?'' = None)"
    by simp
  have a: "fst (cache_question (Some (\<lambda>t. None)) False example_store 11 ''What is pH?'' ''answer'' None (Some [])) = False"
    using f h by blast
  have b: "fst (snd (cache_question (Some (\<lambda>t. None)) False example_store 11 ''What is pH?'' ''answer'' None (Some []))) = example_store"
    using f h by blast
  have fp: "extract_question_fingerprint ''What is pH?'' = ''what ph''"
    by code_simp
  have na: "\<not> insert_rejected ''What is pH?'' (extract_question_fingerprint ''What is pH?'')
              ''answer'' None (Some [])"
    unfolding fp by (simp add: insert_rejected_def has_nul_def)
  have c: "fst (cache_question (Some (\<lambda>t. Some [1, 0])) False example_store 11 ''What is pH?'' ''answer'' None (Some []))"
    by (simp add: cache_inserts [OF _ _ na] example_store_def)
  have "\<exists>e v. Some (\<lambda>t::string. Some [1, 0::real]) = Some e \<and> e ''What is pH?'' = Some v
      \<and> fst (snd (cache_question (Some (\<lambda>t. Some [1, 0])) False example_store 11 ''What is pH?'' ''answer'' None (Some [])))
          = example_store \<lparr> cached_scientific_questions :=
               cached_scientific_questions example_store @
                  [\<lparr> cq_id = next_cached_id example_store, question_text = ''What is pH?'',
                     normalized_text = extract_question_fingerprint ''What is pH?'',
                     answer_text = ''answer'',
                     embedding = Some v, image_hash = map_option (take 64) None,
                     times_used = 1, last_used = 11,
                     created_at = 11, is_corrected = False, corrected_at = None,
                     correction_source = None,
                     metadata = (if Some [] = Some ([] :: (string \<times> string) list) then None
                                 else Some []) \<rparr>],
               next_cached_id := Suc (next_cached_id example_store) \<rparr>"
    using g c by blast
  then have d: "cached_scientific_questions (fst (snd (cache_question (Some (\<lambda>t. Some [1, 0])) False example_store 11 ''What is pH?'' ''answer'' None (Some []))))
      = cached_scientific_questions example_store @
                  [\<lparr> cq_id = 9, question_text = ''What is pH?'',
                     normalized_text = extract_question_fingerprint ''What is pH?'',
                     answer_text = ''answer'',
                     embedding = Some [1, 0], image_hash = None,
                     times_used = 1, last_used = 11,
                     created_at = 11, is_corrected = False, corrected_at = None,
                     correction_source = None, metadata = None \<rparr>]"
    by (auto simp: example_store_def)
  have d1: "map cq_id (cached_scientific_questions (fst (snd (cache_question (Some (\<lambda>t. Some [1, 0])) False example_store 11 ''What is pH?'' ''answer'' None (Some []))))) = [7, 8, 9]"
    unfolding d by (simp add: example_store_def example_row_def)
  have d2: "map is_corrected (cached_scientific_questions (fst (snd (cache_question (Some (\<lambda>t. Some [1, 0])) False example_store 11 ''What is pH?'' ''answer'' None (Some []))))) = [True, False, False]"
    unfolding d by (simp add: example_store_def example_row_def)
  have d3: "map metadata (cached_scientific_questions (fst (snd (cache_question (Some (\<lambda>t. Some [1, 0])) False example_store 11 ''What is pH?'' ''answer'' None (Some []))))) = [None, None, None]"
    unfolding d by (simp add: example_store_def example_row_def)
  have e: "fst (cache_question (Some (\<lambda>t. Some [1, 0])) True example_store 11 ''What is pH?'' ''answer'' None (Some [])) = False"
    using k by blast
  have e2: "fst (snd (cache_question (Some (\<lambda>t. Some [1, 0])) True example_store 11 ''What is pH?'' ''answer'' None (Some []))) = example_store"
    using k by blast
  show ?thesis using a b c d1 d2 d3 e e2 by blast
qed

section \<open>Properties of \<open>find_similar_question\<close>\<close>

lemma first_best_member: "first_best ok score qs q \<Longrightarrow> q \<in> set qs \<and> ok q"
  unfolding first_best_def by auto

lemma first_best_max:
  "first_best ok score qs q \<Longrightarrow> p \<in> set qs \<Longrightarrow> ok p \<Longrightarrow> score p \<le> score q"
  unfolding first_best_def by (auto simp: less_imp_le)

lemma signature_layer_outcome:
  assumes "signature_scan ratio (create_question_signature t) qs (None, 0) = (bm, bs)"
  shows "(\<forall>p \<in> set qs. r_is_corrected p \<longrightarrow> signature_score ratio t p \<le> bs)
         \<and> ((bm = None \<and> bs = 0)
            \<or> (\<exists>q. bm = Some q \<and> bs = signature_score ratio t q
                  \<and> first_best r_is_corrected (signature_score ratio t) qs q))"
  using signature_scan_spec [OF assms] by auto

lemma semantic_layer_outcome:
  assumes "semantic_scan v qs (None, 0) = Some (bm, bs)"
  shows "(\<forall>p \<in> set qs. semantic_eligible p \<longrightarrow> semantic_score v p \<le> bs)
         \<and> ((bm = None \<and> bs = 0)
            \<or> (\<exists>q. bm = Some q \<and> bs = semantic_score v q
                  \<and> first_best semantic_eligible (semantic_score v) qs q))"
  using semantic_scan_spec [OF assms] by auto


lemma layers_unfold:
  "signature_and_semantic_layers ratio e d tr t =
     (case signature_scan ratio (create_question_signature t) (pool d) (None, 0) of
        (bm, bs) \<Rightarrow>
          if bs \<ge> MEDIUM_CONFIDENCE_THRESHOLD
          then (map_option Pool_hit bm, d, tr @ [Db_fetch_recent 200])
          else (case e t of
                  None \<Rightarrow> (None, d, tr @ [Db_fetch_recent 200, Embed_query t])
                | Some v \<Rightarrow>
                    (case semantic_scan v (pool d) (None, 0) of
                       None \<Rightarrow> (None, d, tr @ [Db_fetch_recent 200, Embed_query t])
                     | Some (bm2, bs2) \<Rightarrow>
                         if bs2 \<ge> SEMANTIC_EMBEDDING_THRESHOLD
                         then (map_option Pool_hit bm2, d, tr @ [Db_fetch_recent 200, Embed_query t])
                         else (None, d, tr @ [Db_fetch_recent 200, Embed_query t]))))"
  unfolding signature_and_semantic_layers_def pool_def Let_def
    HIGH_CONFIDENCE_THRESHOLD_def MEDIUM_CONFIDENCE_THRESHOLD_def
  by (simp split: prod.splits option.splits)

lemma first_best_exists:
  "\<exists>p \<in> set qs. ok p \<Longrightarrow> \<exists>q. first_best ok score qs q"
proof (induction qs)
  case Nil
  then show ?case by simp
next
  case (Cons a qs)
  show ?case
  proof (cases "\<exists>p \<in> set qs. ok p")
    case False
    then have "ok a" using Cons.prems by auto
    then have "first_best ok score (a # qs) a"
      unfolding first_best_def using False by (intro exI [of _ "[]"] exI [of _ qs]) auto
    then show ?thesis ..
  next
    case True
    then obtain q where q: "first_best ok score qs q" using Cons.IH by blast
    then obtain pre post where d: "qs = pre @ q # post" "ok q"
        "\<forall>p \<in> set pre. ok p \<longrightarrow> score p < score q"
        "\<forall>p \<in> set post. ok p \<longrightarrow> score p \<le> score q"
      unfolding first_best_def by blast
    show ?thesis
    proof (cases "ok a \<and> score q \<le> score a")
      case True
      have "\<forall>p \<in> set qs. ok p \<longrightarrow> score p \<le> score a"
        using first_best_max [OF q] True by fastforce
      then have "first_best ok score (a # qs) a"
        unfolding first_best_def using True by (intro exI [of _ "[]"] exI [of _ qs]) auto
      then show ?thesis ..
    next
      case False
      have "first_best ok score (a # qs) q"
        unfolding first_best_def using d False
        by (intro exI [of _ "a # pre"] exI [of _ post]) auto
      then show ?thesis ..
    qed
  qed
qed



lemma layers_signature_miss:
  assumes "\<forall>p \<in> set (pool d). r_is_corrected p
             \<longrightarrow> signature_score ratio t p < MEDIUM_CONFIDENCE_THRESHOLD"
  shows "signature_and_semantic_layers ratio e d tr t =
          (case e t of
             None \<Rightarrow> (None, d, tr @ [Db_fetch_recent 200, Embed_query t])
           | Some v \<Rightarrow>
               (case semantic_scan v (pool d) (None, 0) of
                  None \<Rightarrow> (None, d, tr @ [Db_fetch_recent 200, Embed_query t])
                | Some (bm2, bs2) \<Rightarrow>
                    if bs2 \<ge> SEMANTIC_EMBEDDING_THRESHOLD
                    then (map_option Pool_hit bm2, d, tr @ [Db_fetch_recent 200, Embed_query t])
                    else (None, d, tr @ [Db_fetch_recent 200, Embed_query t])))"
proof -
  obtain bm bs where s: "signature_scan ratio (create_question_signature t) (pool d) (None, 0)
      = (bm, bs)" by (cases "signature_scan ratio (create_question_signature t) (pool d) (None, 0)")
  note o = signature_layer_outcome [OF s]
  have "bs < MEDIUM_CONFIDENCE_THRESHOLD"
  proof (cases "bm = None \<and> bs = 0")
    case True
    then show ?thesis by (simp add: MEDIUM_CONFIDENCE_THRESHOLD_def)
  next
    case False
    then obtain q where q: "bs = signature_score ratio t q"
      "first_best r_is_corrected (signature_score ratio t) (pool d) q" using o by blast
    then show ?thesis using assms first_best_member [OF q(2)] by blast
  qed
  then show ?thesis unfolding layers_unfold s by simp
qed




lemma sort_key_head:
  "sort_key f xs = y # ys \<Longrightarrow> y \<in> set xs \<and> (\<forall>x \<in> set xs. f y \<le> f x)"
proof -
  assume a: "sort_key f xs = y # ys"
  have s: "sorted (map f (y # ys))" using sorted_sort_key [of f xs] a by simp
  have e: "set (y # ys) = set xs" using set_sort [of f xs] a by simp
  have "\<forall>x \<in> set (y # ys). f y \<le> f x" using s by auto
  then show ?thesis using e by auto
qed

lemma lookup_found:
  assumes "get_cached_question_by_image_hash db now h = Some (Some row, db1)"
  shows "\<not> has_nul h \<and> row \<in> set (cached_scientific_questions db)
         \<and> image_hash row = Some h
         \<and> (\<forall>r \<in> set (cached_scientific_questions db).
               image_hash r = Some h \<longrightarrow> last_used r \<le> last_used row)
         \<and> db1 = db \<lparr> cached_scientific_questions :=
                  map (\<lambda>r. if cq_id r = cq_id row
                            then r \<lparr> times_used := times_used r + 1, last_used := now \<rparr> else r)
                      (cached_scientific_questions db) \<rparr>"
proof -
  let ?m = "filter (\<lambda>r. image_hash r = Some h) (cached_scientific_questions db)"
  have n: "\<not> has_nul h" using assms
    by (auto simp: get_cached_question_by_image_hash_def split: if_splits)
  obtain ys where o: "order_by_last_used_desc ?m = row # ys"
    and d: "db1 = db \<lparr> cached_scientific_questions :=
                  map (\<lambda>r. if cq_id r = cq_id row
                            then r \<lparr> times_used := times_used r + 1, last_used := now \<rparr> else r)
                      (cached_scientific_questions db) \<rparr>"
    using assms n
    by (auto simp: get_cached_question_by_image_hash_def split: list.splits)
  have h: "row \<in> set ?m \<and> (\<forall>x \<in> set ?m. - int (last_used row) \<le> - int (last_used x))"
    using o unfolding order_by_last_used_desc_def by (rule sort_key_head)
  then show ?thesis using n d by auto
qed

lemma lookup_not_found:
  assumes "get_cached_question_by_image_hash db now h = Some (None, db1)"
  shows "db1 = db \<and> (\<forall>r \<in> set (cached_scientific_questions db). image_hash r \<noteq> Some h)"
proof -
  let ?m = "filter (\<lambda>r. image_hash r = Some h) (cached_scientific_questions db)"
  have "order_by_last_used_desc ?m = [] \<and> db1 = db" using assms
    by (auto simp: get_cached_question_by_image_hash_def split: if_splits list.splits)
  then have "?m = [] \<and> db1 = db"
    unfolding order_by_last_used_desc_def by (metis set_empty set_sort)
  then show ?thesis by (auto simp: filter_empty_conv)
qed


lemma pool_member:
  "q \<in> set (pool d) \<Longrightarrow> \<exists>r \<in> set (cached_scientific_questions d). q = recent_columns r"
proof -
  assume "q \<in> set (pool d)"
  then obtain r where r: "r \<in> set (take 200 (order_by_last_used_desc (cached_scientific_questions d)))"
      "q = recent_columns r"
    unfolding pool_def get_recent_cached_questions_def by auto
  have "r \<in> set (order_by_last_used_desc (cached_scientific_questions d))"
    using r(1) by (rule in_set_takeD)
  then have "r \<in> set (cached_scientific_questions d)"
    unfolding order_by_last_used_desc_def by simp
  then show ?thesis using r(2) by blast
qed


lemma layers_some:
  assumes "fst (signature_and_semantic_layers ratio e d tr t) = Some hit'"
  shows "\<exists>q \<in> set (pool d). hit' = Pool_hit q \<and> r_is_corrected q"
proof -
  obtain bm bs where s: "signature_scan ratio (create_question_signature t) (pool d) (None, 0)
      = (bm, bs)" by (cases "signature_scan ratio (create_question_signature t) (pool d) (None, 0)")
  note o = signature_layer_outcome [OF s]
  show ?thesis
  proof (cases "bs \<ge> MEDIUM_CONFIDENCE_THRESHOLD")
    case True
    then have "map_option Pool_hit bm = Some hit'"
      using assms unfolding layers_unfold s by simp
    then obtain q where q: "bm = Some q" "hit' = Pool_hit q" by auto
    then have "first_best r_is_corrected (signature_score ratio t) (pool d) q" using o by auto
    then show ?thesis using q(2) first_best_member by fastforce
  next
    case False
    then obtain v bm2 bs2 where v: "e t = Some v"
        and s2: "semantic_scan v (pool d) (None, 0) = Some (bm2, bs2)"
        and m: "map_option Pool_hit bm2 = Some hit'"
      using assms unfolding layers_unfold s
      by (auto split: option.splits if_splits)
    note o2 = semantic_layer_outcome [OF s2]
    obtain q where q: "bm2 = Some q" "hit' = Pool_hit q" using m by auto
    then have "first_best semantic_eligible (semantic_score v) (pool d) q" using o2 by auto
    then have "q \<in> set (pool d) \<and> semantic_eligible q" by (rule first_best_member)
    then show ?thesis using q(2) by (auto simp: semantic_eligible_def)
  qed
qed

lemma pool_hit_served:
  assumes "q \<in> set (pool d)" "r_is_corrected q"
    and "d = db \<or> (\<exists>i. d = db \<lparr> cached_scientific_questions :=
                  map (\<lambda>r. if cq_id r = i
                            then r \<lparr> times_used := times_used r + 1, last_used := now \<rparr> else r)
                      (cached_scientific_questions db) \<rparr>)"
  shows "\<exists>row \<in> set (cached_scientific_questions db). is_corrected row \<and> served_by (Pool_hit q) row"
proof -
  obtain r1 where r1: "r1 \<in> set (cached_scientific_questions d)" "q = recent_columns r1"
    using pool_member [OF assms(1)] by blast
  have "\<exists>r \<in> set (cached_scientific_questions db). cq_id r1 = cq_id r
          \<and> question_text r1 = question_text r \<and> answer_text r1 = answer_text r
          \<and> embedding r1 = embedding r \<and> is_corrected r1 = is_corrected r"
  proof (cases "d = db")
    case True
    then show ?thesis using r1(1) by blast
  next
    case False
    then obtain i where "d = db \<lparr> cached_scientific_questions :=
                  map (\<lambda>r. if cq_id r = i
                            then r \<lparr> times_used := times_used r + 1, last_used := now \<rparr> else r)
                      (cached_scientific_questions db) \<rparr>" using assms(3) by blast
    then have "r1 \<in> set (map (\<lambda>r. if cq_id r = i
                            then r \<lparr> times_used := times_used r + 1, last_used := now \<rparr> else r)
                      (cached_scientific_questions db))" using r1(1) by simp
    then obtain x where x: "x \<in> set (cached_scientific_questions db)"
        "r1 = (if cq_id x = i then x \<lparr> times_used := times_used x + 1, last_used := now \<rparr> else x)"
      by auto
    have "cq_id r1 = cq_id x \<and> question_text r1 = question_text x
          \<and> answer_text r1 = answer_text x \<and> embedding r1 = embedding x
          \<and> is_corrected r1 = is_corrected x"
      unfolding x(2) by simp
    then show ?thesis using x(1) by blast
  qed
  then obtain r where r: "r \<in> set (cached_scientific_questions db)" "cq_id r1 = cq_id r"
      "question_text r1 = question_text r" "answer_text r1 = answer_text r"
      "embedding r1 = embedding r" "is_corrected r1 = is_corrected r" by blast
  have "is_corrected r \<and> served_by (Pool_hit q) r"
    using r assms(2) r1(2) by (simp add: served_by_def recent_columns_def)
  then show ?thesis using r(1) by blast
qed

text \<open>
  C1.  Whatever \<open>find_similar_question\<close> returns as a hit is approved: the row of the
  image-hash lookup has \<open>is_corrected\<close>, and so has the pool entry of the signature layer
  and of the semantic layer.  The hit is, or has the columns of, a row of the store that
  has \<open>is_corrected\<close>.
\<close>

theorem find_similar_question_only_approved:
  assumes "fst (find_similar_question ratio embeddings db now t ih) = Some hit'"
  shows "hit_is_corrected hit'
         \<and> (\<exists>row \<in> set (cached_scientific_questions db). is_corrected row \<and> served_by hit' row)"
proof -
  obtain e where e: "embeddings = Some e"
    using assms by (cases embeddings) (simp_all add: find_similar_question_def)
  have pool_case: "hit_is_corrected hit'
         \<and> (\<exists>row \<in> set (cached_scientific_questions db). is_corrected row \<and> served_by hit' row)"
    if l: "fst (signature_and_semantic_layers ratio e d tr t) = Some hit'"
      and d: "d = db \<or> (\<exists>i. d = db \<lparr> cached_scientific_questions :=
                  map (\<lambda>r. if cq_id r = i
                            then r \<lparr> times_used := times_used r + 1, last_used := now \<rparr> else r)
                      (cached_scientific_questions db) \<rparr>)" for d tr
  proof -
    obtain q where q: "q \<in> set (pool d)" "hit' = Pool_hit q" "r_is_corrected q"
      using layers_some [OF l] by blast
    show ?thesis using pool_hit_served [OF q(1) q(3) d] q(2,3) by simp
  qed
  show ?thesis
  proof (cases "ih = None \<or> ih = Some []")
    case True
    then have "find_similar_question ratio embeddings db now t ih
        = signature_and_semantic_layers ratio e db [] t"
      unfolding e by (auto simp: find_similar_question_def)
    then show ?thesis using pool_case [of db "[]"] assms by simp
  next
    case False
    then obtain h where h: "ih = Some h" "h \<noteq> []" by (cases ih) auto
    show ?thesis
    proof (cases "get_cached_question_by_image_hash db now h")
      case None
      then show ?thesis using assms unfolding e h by (simp add: find_similar_question_def h(2))
    next
      case (Some r)
      obtain m db1 where r: "r = (m, db1)" by (cases r)
      show ?thesis
      proof (cases "case m of None \<Rightarrow> False | Some row \<Rightarrow> is_corrected row")
        case True
        then obtain row where row: "m = Some row" "is_corrected row" by (cases m) auto
        have "find_similar_question ratio embeddings db now t ih
            = (Some (Image_hit row), db1, [Db_image_hash_lookup h])"
          unfolding e h using Some r row h(2) by (simp add: find_similar_question_def)
        then have hit: "hit' = Image_hit row" using assms by simp
        have "row \<in> set (cached_scientific_questions db)"
          using lookup_found [of db now h row db1] Some r row(1) by simp
        then show ?thesis using hit row(2) by (auto simp: served_by_def)
      next
        case False
        then have f: "find_similar_question ratio embeddings db now t ih
            = signature_and_semantic_layers ratio e db1 [Db_image_hash_lookup h] t"
          unfolding e h using Some r h(2) by (simp add: find_similar_question_def)
        have "db1 = db \<or> (\<exists>i. db1 = db \<lparr> cached_scientific_questions :=
                  map (\<lambda>r. if cq_id r = i
                            then r \<lparr> times_used := times_used r + 1, last_used := now \<rparr> else r)
                      (cached_scientific_questions db) \<rparr>)"
        proof (cases m)
          case None
          then show ?thesis using lookup_not_found [of db now h db1] Some r by simp
        next
          case (Some row)
          then have "get_cached_question_by_image_hash db now h = Some (Some row, db1)"
            using \<open>get_cached_question_by_image_hash db now h = Some r\<close> r by simp
          then show ?thesis using lookup_found [of db now h row db1] by blast
        qed
        then show ?thesis using pool_case [of db1 "[Db_image_hash_lookup h]"] assms f by simp
      qed
    qed
  qed
qed

lemma signature_of_zzz:
  "extract_question_fingerprint ''zzz'' = ''zzz''"
  "extract_chemical_formulas ''zzz'' = {}"
  "extract_numbers_and_units ''zzz'' = {}"
  "extract_chemistry_keywords ''zzz'' = {}"
  by code_simp+

lemma score_of_zzz: "signature_score (\<lambda>a b. 0) ''zzz'' q = 0"
  by (simp add: signature_score_def compute_signature_similarity_def create_question_signature_def
        compute_fuzzy_similarity_def compute_set_overlap_def signature_of_zzz Let_def)

lemma example_pool:
  "pool example_store =
     [recent_columns (example_row 8 ''Is NaCl soluble in water?'' (Some ''abc123'') 9 False (Some [0, 1])),
      recent_columns (example_row 7 ''What is the oxidation state of Fe in Fe2O3?'' (Some ''abc123'') 5 True
            (Some [1, 0]))]"
  by (simp add: pool_def get_recent_cached_questions_def order_by_last_used_desc_def
        example_store_def example_row_def)

lemma example_semantic_hit:
  "semantic_scan [1, 0] (pool example_store) (None, 0)
     = Some (Some (recent_columns (example_row 7 ''What is the oxidation state of Fe in Fe2O3?''
                (Some ''abc123'') 5 True (Some [1, 0]))), 1)"
  unfolding example_pool
  by (simp add: recent_columns_def example_row_def compute_cosine_similarity_def)

lemma example_semantic_miss:
  "semantic_scan [0, 1] (pool example_store) (None, 0) = Some (None, 0)"
  unfolding example_pool
  by (simp add: recent_columns_def example_row_def compute_cosine_similarity_def)


lemma example_layers_zzz:
  "signature_and_semantic_layers (\<lambda>a b. 0) e example_store tr ''zzz'' =
     (case e ''zzz'' of
        None \<Rightarrow> (None, example_store, tr @ [Db_fetch_recent 200, Embed_query ''zzz''])
      | Some v \<Rightarrow>
          (case semantic_scan v (pool example_store) (None, 0) of
             None \<Rightarrow> (None, example_store, tr @ [Db_fetch_recent 200, Embed_query ''zzz''])
           | Some (bm2, bs2) \<Rightarrow>
               if bs2 \<ge> SEMANTIC_EMBEDDING_THRESHOLD
               then (map_option Pool_hit bm2, example_store,
                     tr @ [Db_fetch_recent 200, Embed_query ''zzz''])
               else (None, example_store, tr @ [Db_fetch_recent 200, Embed_query ''zzz''])))"
  by (rule layers_signature_miss) (simp add: score_of_zzz MEDIUM_CONFIDENCE_THRESHOLD_def)

theorem find_similar_question_only_approved_witness:
  "fst (find_similar_question (\<lambda>a b. 0) (Some (\<lambda>t. Some [1, 0])) example_store 11 ''zzz'' None)
     = Some (Pool_hit (recent_columns (example_row 7 ''What is the oxidation state of Fe in Fe2O3?'' (Some ''abc123'') 5 True (Some [1, 0]))))
   \<and> hit_is_corrected (Pool_hit (recent_columns (example_row 7 ''What is the oxidation state of Fe in Fe2O3?'' (Some ''abc123'') 5 True (Some [1, 0]))))
   \<and> fst (find_similar_question (\<lambda>a b. 0) (Some (\<lambda>t. Some [0, 1])) example_store 11 ''zzz'' None)
     = None"
proof -
  have a: "fst (find_similar_question (\<lambda>a b. 0) (Some (\<lambda>t. Some [1, 0])) example_store 11
               ''zzz'' None) = Some (Pool_hit (recent_columns (example_row 7 ''What is the oxidation state of Fe in Fe2O3?'' (Some ''abc123'') 5 True (Some [1, 0]))))"
    by (simp add: find_similar_question_def example_layers_zzz example_semantic_hit
          SEMANTIC_EMBEDDING_THRESHOLD_def)
  have b: "hit_is_corrected (Pool_hit (recent_columns (example_row 7 ''What is the oxidation state of Fe in Fe2O3?'' (Some ''abc123'') 5 True (Some [1, 0]))))"
    using find_similar_question_only_approved [OF a] by blast
  have c: "fst (find_similar_question (\<lambda>a b. 0) (Some (\<lambda>t. Some [0, 1])) example_store 11
               ''zzz'' None) = None"
    by (simp add: find_similar_question_def example_layers_zzz example_semantic_miss
          SEMANTIC_EMBEDDING_THRESHOLD_def)
  from a b c show ?thesis by (intro conjI)
qed
















section \<open>The matches of the question-number pattern\<close>

lemma ends_star_cls_Nil: "ends (Star (Cls P)) (pc, []) = [(pc, [])]"
  by simp

lemma ends_star_cls_Cons:
  "ends (Star (Cls P)) (pc, c # cs)
     = (if P c then ends (Star (Cls P)) (Some c, cs) @ [(pc, c # cs)] else [(pc, c # cs)])"
  by simp

lemma ends_star_cls_head:
  "\<exists>pc' rest. ends (Star (Cls P)) (pc, s) = (pc', dropWhile P s) # rest"
proof (induction s arbitrary: pc)
  case Nil
  then show ?case by simp
next
  case (Cons c cs)
  show ?case
  proof (cases "P c")
    case True
    obtain pc' rest where "ends (Star (Cls P)) (Some c, cs) = (pc', dropWhile P cs) # rest"
      using Cons.IH by blast
    then show ?thesis using True by (simp del: ends.simps add: ends_star_cls_Cons)
  next
    case False
    then show ?thesis by (simp del: ends.simps add: ends_star_cls_Cons)
  qed
qed

lemma concat_map_ends_star:
  assumes "\<And>pc c cs. P c \<Longrightarrow> g (pc, c # cs) = []"
  shows "\<exists>pc'. concat (map g (ends (Star (Cls P)) (pc, s))) = g (pc', dropWhile P s)"
proof (induction s arbitrary: pc)
  case Nil
  show ?case by (rule exI [of _ pc]) simp
next
  case (Cons c cs)
  show ?case
  proof (cases "P c")
    case True
    obtain pc' where "concat (map g (ends (Star (Cls P)) (Some c, cs))) = g (pc', dropWhile P cs)"
      using Cons.IH by blast
    then show ?thesis using True assms [OF True]
      by (intro exI [of _ pc']) (simp del: ends.simps add: ends_star_cls_Cons)
  next
    case False
    then show ?thesis by (intro exI [of _ pc]) (simp del: ends.simps add: ends_star_cls_Cons)
  qed
qed


lemmas ends_plain = ends.simps(1,2,3,4,6)

lemma ends_marker_spaces:
  "\<exists>pc' rest. ends (Seq (Opt (Cls (\<lambda>c. c \<in> set '':).-''))) (Star (Cls is_space))) (pc, s)
      = (pc', dropWhile is_space (drop_marker s)) # rest"
proof (cases s)
  case Nil
  then show ?thesis by (simp add: Opt_def)
next
  case (Cons c cs)
  show ?thesis
  proof (cases "c \<in> set '':).-''")
    case True
    obtain pc' rest where "ends (Star (Cls is_space)) (Some c, cs) = (pc', dropWhile is_space cs) # rest"
      using ends_star_cls_head by blast
    then show ?thesis using True Cons
      by (simp del: ends.simps add: ends_plain Opt_def)
  next
    case False
    obtain pc' rest where "ends (Star (Cls is_space)) (pc, c # cs)
        = (pc', dropWhile is_space (c # cs)) # rest"
      using ends_star_cls_head by blast
    then show ?thesis using False Cons
      by (simp del: ends.simps add: ends_plain Opt_def)
  qed
qed

lemma ends_number_tail_None:
  "number_tail s = None
     \<Longrightarrow> ends (Seq (Plus (Cls is_digit))
               (Seq (Opt (Cls (\<lambda>c. c \<in> set '':).-''))) (Star (Cls is_space)))) (pc, s) = []"
  by (cases s) (simp_all del: ends.simps add: ends_plain Plus_def number_tail_def split: if_splits)

lemma ends_number_tail_Some:
  assumes "number_tail s = Some r"
  shows "\<exists>pc' rest. ends (Seq (Plus (Cls is_digit))
               (Seq (Opt (Cls (\<lambda>c. c \<in> set '':).-''))) (Star (Cls is_space)))) (pc, s)
            = (pc', r) # rest"
proof -
  obtain c cs where s: "s = c # cs" "is_digit c"
      "r = dropWhile is_space (drop_marker (dropWhile is_digit cs))"
    using assms by (cases s) (auto simp: number_tail_def split: if_splits)
  obtain p1 rest1 where a: "ends (Star (Cls is_digit)) (Some c, cs)
      = (p1, dropWhile is_digit cs) # rest1"
    using ends_star_cls_head by blast
  obtain p2 rest2 where b:
      "ends (Seq (Opt (Cls (\<lambda>c. c \<in> set '':).-''))) (Star (Cls is_space)))
         (p1, dropWhile is_digit cs)
       = (p2, dropWhile is_space (drop_marker (dropWhile is_digit cs))) # rest2"
    using ends_marker_spaces by blast
  have "ends (Seq (Plus (Cls is_digit))
               (Seq (Opt (Cls (\<lambda>c. c \<in> set '':).-''))) (Star (Cls is_space)))) (pc, s)
      = concat (map (ends (Seq (Opt (Cls (\<lambda>c. c \<in> set '':).-''))) (Star (Cls is_space))))
                 (ends (Star (Cls is_digit)) (Some c, cs)))"
    using s(1,2) by (simp del: ends.simps add: ends_plain Plus_def)
  also have "\<dots> = ((p2, r) # rest2)
      @ concat (map (ends (Seq (Opt (Cls (\<lambda>c. c \<in> set '':).-''))) (Star (Cls is_space)))) rest1)"
    unfolding a using b s(3) by (simp del: ends.simps)
  finally show ?thesis by simp
qed


lemma first_rest_number_tail:
  "first_rest (Seq (Plus (Cls is_digit)) (Seq (Opt (Cls (\<lambda>c. c \<in> set '':).-''))) (Star (Cls is_space)))) (pc, s) = number_tail s"
proof (cases "number_tail s")
  case None
  show ?thesis unfolding first_rest_def ends_number_tail_None [OF None] None by simp
next
  case (Some r)
  then obtain pc' rest where "ends (Seq (Plus (Cls is_digit)) (Seq (Opt (Cls (\<lambda>c. c \<in> set '':).-''))) (Star (Cls is_space)))) (pc, s) = (pc', r) # rest"
    using ends_number_tail_Some by blast
  then show ?thesis unfolding first_rest_def Some by simp
qed

lemma space_not_digit: "is_space c \<Longrightarrow> \<not> is_digit c"
  by (auto simp: is_space_def is_digit_def in_range_def)

lemma ends_spaces_number:
  "\<exists>pc'. ends (Seq (Star (Cls is_space)) (Seq (Plus (Cls is_digit)) (Seq (Opt (Cls (\<lambda>c. c \<in> set '':).-''))) (Star (Cls is_space))))) (pc, s) = ends (Seq (Plus (Cls is_digit)) (Seq (Opt (Cls (\<lambda>c. c \<in> set '':).-''))) (Star (Cls is_space)))) (pc', dropWhile is_space s)"
proof -
  have g: "\<And>pc c cs. is_space c \<Longrightarrow> ends (Seq (Plus (Cls is_digit)) (Seq (Opt (Cls (\<lambda>c. c \<in> set '':).-''))) (Star (Cls is_space)))) (pc, c # cs) = []"
    by (rule ends_number_tail_None) (simp add: number_tail_def space_not_digit)
  have "\<exists>pc'. concat (map (ends (Seq (Plus (Cls is_digit)) (Seq (Opt (Cls (\<lambda>c. c \<in> set '':).-''))) (Star (Cls is_space))))) (ends (Star (Cls is_space)) (pc, s)))
            = ends (Seq (Plus (Cls is_digit)) (Seq (Opt (Cls (\<lambda>c. c \<in> set '':).-''))) (Star (Cls is_space)))) (pc', dropWhile is_space s)"
    using g by (rule concat_map_ends_star)
  then show ?thesis by (simp only: ends_plain)
qed

lemma first_rest_spaces_number:
  "first_rest (Seq (Star (Cls is_space)) (Seq (Plus (Cls is_digit)) (Seq (Opt (Cls (\<lambda>c. c \<in> set '':).-''))) (Star (Cls is_space))))) (pc, s) = number_tail (dropWhile is_space s)"
proof -
  obtain pc' where "ends (Seq (Star (Cls is_space)) (Seq (Plus (Cls is_digit)) (Seq (Opt (Cls (\<lambda>c. c \<in> set '':).-''))) (Star (Cls is_space))))) (pc, s) = ends (Seq (Plus (Cls is_digit)) (Seq (Opt (Cls (\<lambda>c. c \<in> set '':).-''))) (Star (Cls is_space)))) (pc', dropWhile is_space s)"
    using ends_spaces_number by blast
  then have "first_rest (Seq (Star (Cls is_space)) (Seq (Plus (Cls is_digit)) (Seq (Opt (Cls (\<lambda>c. c \<in> set '':).-''))) (Star (Cls is_space))))) (pc, s)
      = first_rest (Seq (Plus (Cls is_digit)) (Seq (Opt (Cls (\<lambda>c. c \<in> set '':).-''))) (Star (Cls is_space)))) (pc', dropWhile is_space s)"
    by (simp only: first_rest_def)
  then show ?thesis by (simp only: first_rest_number_tail)
qed

lemma prefix_i_Nil: "prefix_i [] s"
  by (simp add: prefix_i_def)

lemma prefix_i_Cons:
  "prefix_i (x # xs) s = (case s of [] \<Rightarrow> False
                          | c # cs \<Rightarrow> lower_char c = lower_char x \<and> prefix_i xs cs)"
  by (cases s) (auto simp: prefix_i_def)

lemma ends_Lit_i:
  "(prefix_i w s \<longrightarrow> (\<exists>pc'. ends (Lit_i w) (pc, s) = [(pc', drop (length w) s)]))
   \<and> (\<not> prefix_i w s \<longrightarrow> ends (Lit_i w) (pc, s) = [])"
proof (induction w arbitrary: pc s)
  case Nil
  then show ?case by (simp add: prefix_i_Nil)
next
  case (Cons x xs)
  show ?case
  proof (cases s)
    case Nil
    then show ?thesis by (simp add: prefix_i_Cons Chr_i_def)
  next
    case (Cons c cs)
    show ?thesis
    proof (cases "lower_char c = lower_char x")
      case True
      then have e: "ends (Lit_i (x # xs)) (pc, s) = ends (Lit_i xs) (Some c, cs)"
        using Cons by (simp add: Chr_i_def)
      show ?thesis unfolding e using Cons.IH [of cs "Some c"] True Cons
        by (simp add: prefix_i_Cons)
    next
      case False
      then show ?thesis using Cons by (simp add: prefix_i_Cons Chr_i_def)
    qed
  qed
qed


lemma first_of_append:
  "(case xs @ ys of [] \<Rightarrow> None | k' # _ \<Rightarrow> Some (snd k'))
     = (case (case xs of [] \<Rightarrow> None | k' # _ \<Rightarrow> Some (snd k')) of
          Some r \<Rightarrow> Some r
        | None \<Rightarrow> (case ys of [] \<Rightarrow> None | k' # _ \<Rightarrow> Some (snd k')))"
  by (cases xs) simp_all

lemma first_after_word:
  "(case concat (map (ends (Seq (Star (Cls is_space)) (Seq (Plus (Cls is_digit)) (Seq (Opt (Cls (\<lambda>c. c \<in> set '':).-''))) (Star (Cls is_space)))))) (ends (Lit_i w) (pc, s))) of
      [] \<Rightarrow> None | k' # _ \<Rightarrow> Some (snd k')) = after_word w s"
proof (cases "prefix_i w s")
  case True
  then obtain pc' where e: "ends (Lit_i w) (pc, s) = [(pc', drop (length w) s)]"
    using ends_Lit_i by blast
  have "(case concat (map (ends (Seq (Star (Cls is_space)) (Seq (Plus (Cls is_digit)) (Seq (Opt (Cls (\<lambda>c. c \<in> set '':).-''))) (Star (Cls is_space)))))) (ends (Lit_i w) (pc, s))) of
      [] \<Rightarrow> None | k' # _ \<Rightarrow> Some (snd k')) = first_rest (Seq (Star (Cls is_space)) (Seq (Plus (Cls is_digit)) (Seq (Opt (Cls (\<lambda>c. c \<in> set '':).-''))) (Star (Cls is_space))))) (pc', drop (length w) s)"
    unfolding e first_rest_def by simp
  then show ?thesis using True by (simp only: first_rest_spaces_number after_word_def if_True)
next
  case False
  then have e: "ends (Lit_i w) (pc, s) = []" using ends_Lit_i by blast
  show ?thesis unfolding e using False by (simp add: after_word_def)
qed

lemma question_number_re_unfold:
  "question_number_re = Seq (Opt (Alt (Lit_i ''question'') (Lit_i ''q''))) (Seq (Star (Cls is_space)) (Seq (Plus (Cls is_digit)) (Seq (Opt (Cls (\<lambda>c. c \<in> set '':).-''))) (Star (Cls is_space)))))"
  by (simp add: question_number_re_def)

lemma ends_opt_alt_seq:
  "ends (Seq (Opt (Alt a b)) c) k
     = concat (map (ends c) (ends a k)) @ concat (map (ends c) (ends b k))
       @ concat (map (ends c) (ends (Lit_i []) k))"
  by (simp add: Opt_def del: ends.simps add: ends_plain)

lemma first_rest_question_number:
  "first_rest question_number_re (pc, s) = question_number_rest s"
  unfolding first_rest_def question_number_re_unfold ends_opt_alt_seq first_of_append
    first_after_word question_number_rest_def ..


lemma length_drop_marker: "length (drop_marker s) \<le> length s"
  by (cases s) simp_all

lemma number_tail_shorter: "number_tail s = Some r \<Longrightarrow> length r < length s"
proof -
  assume a: "number_tail s = Some r"
  then obtain c cs where s: "s = c # cs"
      "r = dropWhile is_space (drop_marker (dropWhile is_digit cs))"
    by (cases s) (auto simp: number_tail_def split: if_splits)
  have "length r \<le> length (drop_marker (dropWhile is_digit cs))"
    unfolding s(2) by (rule length_dropWhile_le)
  also have "\<dots> \<le> length (dropWhile is_digit cs)" by (rule length_drop_marker)
  also have "\<dots> \<le> length cs" by (rule length_dropWhile_le)
  finally show ?thesis using s(1) by simp
qed

lemma after_word_shorter: "after_word w s = Some r \<Longrightarrow> length r < length s"
proof -
  assume a: "after_word w s = Some r"
  then have "number_tail (dropWhile is_space (drop (length w) s)) = Some r"
    by (simp add: after_word_def split: if_splits)
  then have "length r < length (dropWhile is_space (drop (length w) s))"
    by (rule number_tail_shorter)
  also have "\<dots> \<le> length (drop (length w) s)" by (rule length_dropWhile_le)
  also have "\<dots> \<le> length s" by simp
  finally show ?thesis .
qed

lemma question_number_rest_shorter:
  "question_number_rest s = Some r \<Longrightarrow> length r < length s"
  unfolding question_number_rest_def
  by (auto split: option.splits dest: after_word_shorter)

lemma first_match_question_number_None:
  "question_number_rest s = None \<Longrightarrow> first_match question_number_re (pc, s) = None"
  using first_rest_question_number [of pc s]
  by (auto simp: first_rest_def first_match_def split: list.splits)

lemma first_match_question_number_Some:
  "question_number_rest s = Some r \<Longrightarrow> \<exists>pc'. first_match question_number_re (pc, s) = Some (pc', r)"
  using first_rest_question_number [of pc s] question_number_rest_shorter [of s r]
  by (auto simp: first_rest_def first_match_def split: list.splits)

lemma re_sub_question_number_pc:
  "re_sub question_number_re f pc s = re_sub question_number_re f pc' s"
proof (induction "length s" arbitrary: s pc pc' rule: less_induct)
  case less
  show ?case
  proof (cases s)
    case Nil
    then show ?thesis by simp
  next
    case (Cons c cs)
    show ?thesis
    proof (cases "question_number_rest s")
      case None
      then show ?thesis using Cons first_match_question_number_None by simp
    next
      case (Some r)
      obtain p1 where p1: "first_match question_number_re (pc, s) = Some (p1, r)"
        using first_match_question_number_Some [OF Some] by blast
      obtain p2 where p2: "first_match question_number_re (pc', s) = Some (p2, r)"
        using first_match_question_number_Some [OF Some] by blast
      have "re_sub question_number_re f p1 r = re_sub question_number_re f p2 r"
        using less [of r p1 p2] question_number_rest_shorter [OF Some] by simp
      then show ?thesis using p1 p2 unfolding Cons by simp
    qed
  qed
qed

lemma re_sub_question_number_Cons:
  "re_sub question_number_re f pc (c # cs) =
     (case question_number_rest (c # cs) of
        Some r \<Rightarrow> f (take (length (c # cs) - length r) (c # cs)) @ re_sub question_number_re f None r
      | None \<Rightarrow> c # re_sub question_number_re f None cs)"
proof (cases "question_number_rest (c # cs)")
  case None
  then show ?thesis
    using first_match_question_number_None [OF None, of pc]
      re_sub_question_number_pc [of f "Some c" cs None] by simp
next
  case (Some r)
  obtain p1 where p1: "first_match question_number_re (pc, c # cs) = Some (p1, r)"
    using first_match_question_number_Some [OF Some] by blast
  show ?thesis using Some p1 re_sub_question_number_pc [of f p1 r None] by simp
qed

end
